theory Spec2Isabelle
  imports Main
begin

section \<open>JavaScript values\<close>

text \<open>
  The queue and the orchestrator pass plain JavaScript objects around. A value is a JSON
  tree; an object is the list of its own properties in insertion order. Objects used as
  dictionaries (the tracker map, the state map, the hook registry) are maps, and their
  keys are taken to be own properties: names inherited from \<open>Object.prototype\<close> are
  outside the model.
\<close>

datatype json =
    JNull
  | JBool bool
  | JNum int
  | JStr string
  | JArr "json list"
  | JObj "(string \<times> json) list"

type_synonym obj = "(string \<times> json) list"

text \<open>Assignment \<open>o[k] = v\<close>: an existing property keeps its position, a new one goes last.\<close>

fun put :: "string \<Rightarrow> json \<Rightarrow> obj \<Rightarrow> obj" where
  "put k v [] = [(k, v)]"
| "put k v ((k', v') # rest) = (if k = k' then (k, v) # rest else (k', v') # put k v rest)"

text \<open>The object literal \<open>{...base, ...src}\<close>: the properties of \<open>src\<close> are assigned in order.\<close>

fun spread :: "obj \<Rightarrow> obj \<Rightarrow> obj" where
  "spread base [] = base"
| "spread base ((k, v) # src) = spread (put k v base) src"

definition field :: "obj \<Rightarrow> string \<Rightarrow> json option" where
  "field ob k = map_of ob k"

text \<open>JavaScript truthiness, as \<open>task.name || 'default'\<close> uses it; a missing property is \<open>undefined\<close>.\<close>

fun truthy :: "json option \<Rightarrow> bool" where
  "truthy None = False"
| "truthy (Some JNull) = False"
| "truthy (Some (JBool b)) = b"
| "truthy (Some (JNum n)) = (n \<noteq> 0)"
| "truthy (Some (JStr s)) = (s \<noteq> [])"
| "truthy (Some (JArr _)) = True"
| "truthy (Some (JObj _)) = True"

text \<open>Decimal rendering of a number inside a template literal.\<close>

definition digit :: "nat \<Rightarrow> char" where
  "digit d = char_of (48 + d)"

function show_nat :: "nat \<Rightarrow> string" where
  "show_nat n = (if n < 10 then [digit n] else show_nat (n div 10) @ [digit (n mod 10)])"
  by pat_completeness auto
termination
  by (relation "measure (\<lambda>n. n)") auto

declare show_nat.simps [simp del]

definition show_int :: "int \<Rightarrow> string" where
  "show_int i = (if i < 0 then CHR ''-'' # show_nat (nat (- i)) else show_nat (nat i))"

text \<open>
  \<open>String(v)\<close>, which a template literal \<open>`${v}`\<close> applies: an array is its elements
  joined by commas, with \<open>null\<close> elements left empty; a missing property is \<open>undefined\<close>.
\<close>

fun join_comma :: "string list \<Rightarrow> string" where
  "join_comma [] = []"
| "join_comma [x] = x"
| "join_comma (x # y # rest) = x @ '','' @ join_comma (y # rest)"

primrec js_string :: "json \<Rightarrow> string" where
  "js_string JNull = ''null''"
| "js_string (JBool b) = (if b then ''true'' else ''false'')"
| "js_string (JNum n) = show_int n"
| "js_string (JStr s) = s"
| "js_string (JArr xs) =
     join_comma (map2 (\<lambda>x r. if x = JNull then [] else r) xs (map js_string xs))"
| "js_string (JObj ob) = ''[object Object]''"

fun to_str :: "json option \<Rightarrow> string" where
  "to_str None = ''undefined''"
| "to_str (Some v) = js_string v"


section \<open>The file queue and the unified facade (task-queue-redis.js)\<close>

text \<open>
  The backing file \<open>queue.json\<close> is absent, unreadable (the read or \<open>JSON.parse\<close>
  throws), or holds the array that \<open>writeFileQueue\<close> last wrote. A file holding valid
  JSON that is not an array is outside the model: the module never writes one.
\<close>

datatype qfile = Missing | Unparsable string | Stored "obj list"

text \<open>A job waiting in the broker queue, as \<open>queue.add(name, data)\<close> creates it.\<close>

record job =
  jid :: string
  jname :: json
  jdata :: obj

text \<open>
  The module state: the three module variables \<open>redis\<close>, \<open>queue\<close> (is the handle set) and
  \<open>useRedis\<close>, the backing file, the broker's waiting list and the console.
\<close>

record qstate =
  redis :: bool
  queue :: bool
  useRedis :: bool
  queue_file :: qfile
  waiting :: "job list"
  console :: "string list"

text \<open>
  What the environment answers during one call: the clock and the random suffix, whether
  \<open>writeFileSync\<close> throws (with which message), and how each broker request ends.
\<close>

record io =
  now :: nat
  iso :: string
  rand :: string
  write_err :: "string option"
  ping_ok :: bool
  add_res :: "string + string"
  list_err :: "string option"
  remove_err :: "string option"
  count_err :: "string option"

definition say :: "string \<Rightarrow> qstate \<Rightarrow> qstate" where
  "say line s = s\<lparr>console := console s @ [line]\<rparr>"

text \<open>\<open>initRedis\<close>: the client object is created first; \<open>useRedis\<close> records whether \<open>connect\<close> succeeded.\<close>

definition initRedis :: "string option \<Rightarrow> qstate \<Rightarrow> bool \<times> qstate" where
  "initRedis connect_err s =
     (let s1 = s\<lparr>redis := True\<rparr> in
      case connect_err of
        None \<Rightarrow> (True, say ''[Redis] Connected successfully'' (s1\<lparr>useRedis := True\<rparr>))
      | Some msg \<Rightarrow> (False, (say (''[Redis] Failed to connect: '' @ msg) s1)\<lparr>useRedis := False\<rparr>))"

definition checkRedis :: "io \<Rightarrow> qstate \<Rightarrow> bool" where
  "checkRedis env s = (if \<not> redis s then False else ping_ok env)"

definition readFileQueue :: "qstate \<Rightarrow> obj list \<times> qstate" where
  "readFileQueue s =
     (case queue_file s of
        Stored q \<Rightarrow> (q, s)
      | Missing \<Rightarrow> ([], s)
      | Unparsable msg \<Rightarrow> ([], say (''[FileQueue] Read error: '' @ msg) s))"

definition writeFileQueue :: "io \<Rightarrow> obj list \<Rightarrow> qstate \<Rightarrow> qstate" where
  "writeFileQueue env queueData s =
     (case write_err env of
        None \<Rightarrow> s\<lparr>queue_file := Stored queueData\<rparr>
      | Some msg \<Rightarrow> say (''[FileQueue] Write error: '' @ msg) s)"

definition genId :: "io \<Rightarrow> string" where
  "genId env = ''file-'' @ show_nat (now env) @ ''-'' @ rand env"

text \<open>The literal \<open>{ id: `file-...`, ...task, queuedAt: ..., source: 'file' }\<close>.\<close>

definition taskWithId :: "io \<Rightarrow> obj \<Rightarrow> obj" where
  "taskWithId env task =
     put ''source'' (JStr ''file'')
       (put ''queuedAt'' (JStr (iso env))
          (spread [(''id'', JStr (genId env))] task))"

text \<open>
  \<open>fileEnqueue\<close> reads the whole file, then (\<open>fileEnqueue_store\<close>, the rest of its body)
  pushes the record and writes the whole array back.
\<close>

definition fileEnqueue_store :: "io \<Rightarrow> obj \<Rightarrow> obj list \<Rightarrow> qstate \<Rightarrow> obj \<times> qstate" where
  "fileEnqueue_store env task q s =
     (let r = taskWithId env task;
          s1 = writeFileQueue env (q @ [r]) s
      in (r, say (''[FileQueue] Task enqueued: '' @ to_str (field r ''id'')) s1))"

definition fileEnqueue :: "io \<Rightarrow> obj \<Rightarrow> qstate \<Rightarrow> obj \<times> qstate" where
  "fileEnqueue env task s = (case readFileQueue s of (q, s1) \<Rightarrow> fileEnqueue_store env task q s1)"

definition fileDequeue_store :: "io \<Rightarrow> obj list \<Rightarrow> qstate \<Rightarrow> obj option \<times> qstate" where
  "fileDequeue_store env q s =
     (case q of
        [] \<Rightarrow> (None, s)
      | task # rest \<Rightarrow>
          (Some task,
           say (''[FileQueue] Task dequeued: '' @ to_str (field task ''id''))
             (writeFileQueue env rest s)))"

definition fileDequeue :: "io \<Rightarrow> qstate \<Rightarrow> obj option \<times> qstate" where
  "fileDequeue env s = (case readFileQueue s of (q, s1) \<Rightarrow> fileDequeue_store env q s1)"

definition filePeek :: "qstate \<Rightarrow> obj option \<times> qstate" where
  "filePeek s =
     (case readFileQueue s of (q, s1) \<Rightarrow> (case q of [] \<Rightarrow> (None, s1) | task # _ \<Rightarrow> (Some task, s1)))"

text \<open>The job name \<open>task.name || 'default'\<close>.\<close>

definition jobName :: "obj \<Rightarrow> json" where
  "jobName task =
     (case field task ''name'' of
        None \<Rightarrow> JStr ''default''
      | Some v \<Rightarrow> (if truthy (Some v) then v else JStr ''default''))"

text \<open>The literal \<open>{ ...task, queuedAt: ..., source: 'redis' }\<close>.\<close>

definition taskData :: "io \<Rightarrow> obj \<Rightarrow> obj" where
  "taskData env task =
     put ''source'' (JStr ''redis'') (put ''queuedAt'' (JStr (iso env)) (spread [] task))"

definition fileFallback :: "qstate \<Rightarrow> qstate" where
  "fileFallback s = say ''[Queue] Using file queue fallback'' s"

text \<open>
  The unified interface. Each operation calls \<open>checkRedis\<close> and goes to the broker when
  \<open>redisAvailable && useRedis\<close>; a broker request that throws is logged and the
  operation falls through to the file queue.
\<close>

definition enqueue :: "io \<Rightarrow> obj \<Rightarrow> qstate \<Rightarrow> obj \<times> qstate" where
  "enqueue env task s =
     (if checkRedis env s \<and> useRedis s then
        (let s1 = s\<lparr>queue := True\<rparr> in
         case add_res env of
           Inr j \<Rightarrow>
             (spread [(''id'', JStr j)] (taskData env task),
              say (''[Queue] Task enqueued (Redis): '' @ j)
                (s1\<lparr>waiting := waiting s1 @
                      [\<lparr>jid = j, jname = jobName task, jdata = taskData env task\<rparr>]\<rparr>))
         | Inl msg \<Rightarrow>
             fileEnqueue env task
               (fileFallback (say (''[Queue] Redis enqueue failed: '' @ msg) s1)))
      else fileEnqueue env task (fileFallback s))"

definition dequeue :: "io \<Rightarrow> qstate \<Rightarrow> obj option \<times> qstate" where
  "dequeue env s =
     (if checkRedis env s \<and> useRedis s then
        (let s1 = s\<lparr>queue := True\<rparr> in
         case list_err env of
           Some msg \<Rightarrow>
             fileDequeue env (fileFallback (say (''[Queue] Redis dequeue failed: '' @ msg) s1))
         | None \<Rightarrow>
             (case waiting s1 of
                [] \<Rightarrow> fileDequeue env (fileFallback s1)
              | j # rest \<Rightarrow>
                  (case remove_err env of
                     Some msg \<Rightarrow>
                       fileDequeue env
                         (fileFallback (say (''[Queue] Redis dequeue failed: '' @ msg) s1))
                   | None \<Rightarrow>
                       (Some (spread [(''id'', JStr (jid j))] (jdata j)),
                        say (''[Queue] Task dequeued (Redis): '' @ jid j)
                          (s1\<lparr>waiting := rest\<rparr>)))))
      else fileDequeue env (fileFallback s))"

definition peek :: "io \<Rightarrow> qstate \<Rightarrow> obj option \<times> qstate" where
  "peek env s =
     (if checkRedis env s \<and> useRedis s then
        (let s1 = s\<lparr>queue := True\<rparr> in
         case list_err env of
           Some msg \<Rightarrow> filePeek (say (''[Queue] Redis peek failed: '' @ msg) s1)
         | None \<Rightarrow>
             (case waiting s1 of
                [] \<Rightarrow> filePeek s1
              | j # _ \<Rightarrow> (Some (spread [(''id'', JStr (jid j))] (jdata j)), s1)))
      else filePeek s)"

record stats =
  redis_available :: bool
  redis_waiting :: nat
  file_waiting :: nat

definition getStats :: "io \<Rightarrow> qstate \<Rightarrow> stats \<times> qstate" where
  "getStats env s =
     (let available = checkRedis env s;
          (n, s1) =
            (if available \<and> useRedis s then
               (case count_err env of
                  None \<Rightarrow> (length (waiting s), s\<lparr>queue := True\<rparr>)
                | Some msg \<Rightarrow>
                    (0, say (''[Queue] Redis stats failed: '' @ msg) (s\<lparr>queue := True\<rparr>)))
             else (0, s))
      in case readFileQueue s1 of
           (q, s2) \<Rightarrow>
             (\<lparr>redis_available = available, redis_waiting = n, file_waiting = length q\<rparr>, s2))"

text \<open>The module as loaded, before \<open>init\<close>: no client, no queue handle, \<open>useRedis = false\<close>.\<close>

definition loaded :: "qfile \<Rightarrow> job list \<Rightarrow> qstate" where
  "loaded f w =
     \<lparr>redis = False, queue = False, useRedis = False, queue_file = f, waiting = w, console = []\<rparr>"



text \<open>
  Two callers on the same file, as two process instances are. Each \<open>fileEnqueue\<close> is a
  read followed by a write; \<open>interleaved_enqueue\<close> is the schedule in which the
  second caller reads before the first has written.
\<close>

definition interleaved_enqueue ::
    "io \<Rightarrow> obj \<Rightarrow> io \<Rightarrow> obj \<Rightarrow> qstate \<Rightarrow> (obj \<times> obj) \<times> qstate" where
  "interleaved_enqueue env1 task1 env2 task2 s =
     (case readFileQueue s of
        (q1, sa) \<Rightarrow>
          (case readFileQueue sa of
             (q2, sb) \<Rightarrow>
               (case fileEnqueue_store env1 task1 q1 sb of
                  (r1, sc) \<Rightarrow>
                    (case fileEnqueue_store env2 task2 q2 sc of
                       (r2, sd) \<Rightarrow> ((r1, r2), sd)))))"

definition sequential_enqueue ::
    "io \<Rightarrow> obj \<Rightarrow> io \<Rightarrow> obj \<Rightarrow> qstate \<Rightarrow> (obj \<times> obj) \<times> qstate" where
  "sequential_enqueue env1 task1 env2 task2 s =
     (case fileEnqueue env1 task1 s of
        (r1, sa) \<Rightarrow> (case fileEnqueue env2 task2 sa of (r2, sb) \<Rightarrow> ((r1, r2), sb)))"


section \<open>The orchestrator (task-orchestrator.js)\<close>

text \<open>
  A tracked task is the object \<open>tracker.start\<close> creates; the properties set later
  (\<open>completedAt\<close>, \<open>result\<close>, \<open>duration\<close>, \<open>failedAt\<close>, \<open>error\<close>, \<open>retryAttempt\<close>) are
  absent until then. The \<open>logs\<close> array is a mutable object shared by reference between
  the tracker's record and the state manager's copy, so in memory it is an address into a
  store of arrays; on disk (after \<open>JSON.stringify\<close>) it is the array itself.
\<close>

datatype status = Running | Completed | Failed

record 'l tracked =
  taskId :: string
  data :: json
  startedAt :: nat
  progress :: nat
  logs :: 'l
  status :: status
  completedAt :: "nat option"
  result :: "json option"
  duration :: "int option"
  failedAt :: "nat option"
  error :: "string option"
  retryAttempt :: "nat option"

record 'l snapshot = "'l tracked" +
  updatedAt :: nat

text \<open>
  A hook callback gets the task id and the payload; it may write to the console and to
  whatever else the observer owns (\<open>'w\<close>), and it returns normally or throws (the
  message of what it threw). Callbacks do not call back into the tracker or the state
  manager.
\<close>

type_synonym 'w callback =
  "string \<Rightarrow> json \<Rightarrow> string list \<times> 'w \<Rightarrow> (string list \<times> 'w) \<times> string option"

text \<open>
  The process state: the tracker map, the store of log arrays, \<open>stateManager.state\<close>, the
  state file, the hook registry, the console and the observers' world. \<open>clock\<close> and
  \<open>save_err\<close> are what the environment will answer to the successive \<open>Date.now()\<close> and
  \<open>writeFileSync\<close> calls. \<open>fired\<close> is a history variable: the dispatches of
  \<open>triggerHook\<close> on a registered event, in order.
\<close>

record 'w sys =
  tracking :: "string \<rightharpoonup> nat tracked"
  heap :: "nat \<Rightarrow> obj list"
  fresh :: nat
  sm_state :: "string \<rightharpoonup> nat snapshot"
  state_file :: "(string \<rightharpoonup> obj list snapshot) option"
  hooks :: "string \<rightharpoonup> 'w callback list"
  stdout :: "string list"
  world :: 'w
  fired :: "(string \<times> string \<times> json) list"
  clock :: "nat \<Rightarrow> nat"
  ticks :: nat
  save_err :: "nat \<Rightarrow> string option"
  saves :: nat

definition date_now :: "'w sys \<Rightarrow> nat \<times> 'w sys" where
  "date_now s = (clock s (ticks s), s\<lparr>ticks := Suc (ticks s)\<rparr>)"

definition print :: "string \<Rightarrow> 'w sys \<Rightarrow> 'w sys" where
  "print line s = s\<lparr>stdout := stdout s @ [line]\<rparr>"

subsection \<open>StateManager\<close>

definition keep :: "'a option \<Rightarrow> 'a option \<Rightarrow> 'a option" where
  "keep new old = (case new of Some v \<Rightarrow> Some v | None \<Rightarrow> old)"

text \<open>
  \<open>{ ...this.state[taskId], ...data, updatedAt: Date.now() }\<close>, for \<open>data\<close> a tracked
  task (what both call sites pass): a property of \<open>data\<close> wins, a property only the old
  entry has survives.
\<close>

definition merge :: "'l snapshot option \<Rightarrow> 'l tracked \<Rightarrow> nat \<Rightarrow> 'l snapshot" where
  "merge old d t =
     \<lparr>taskId = taskId d, data = data d, startedAt = startedAt d, progress = progress d,
      logs = logs d, status = status d,
      completedAt = keep (completedAt d) (Option.bind old completedAt),
      result = keep (result d) (Option.bind old result),
      duration = keep (duration d) (Option.bind old duration),
      failedAt = keep (failedAt d) (Option.bind old failedAt),
      error = keep (error d) (Option.bind old error),
      retryAttempt = keep (retryAttempt d) (Option.bind old retryAttempt),
      updatedAt = t\<rparr>"

text \<open>\<open>JSON.stringify\<close> of one entry: the log array is written out.\<close>

definition stringify :: "(nat \<Rightarrow> obj list) \<Rightarrow> nat snapshot \<Rightarrow> obj list snapshot" where
  "stringify h e =
     \<lparr>taskId = taskId e, data = data e, startedAt = startedAt e, progress = progress e,
      logs = h (logs e), status = status e, completedAt = completedAt e, result = result e,
      duration = duration e, failedAt = failedAt e, error = error e,
      retryAttempt = retryAttempt e, updatedAt = updatedAt e\<rparr>"

definition saveState :: "'w sys \<Rightarrow> 'w sys" where
  "saveState s =
     (let s1 = s\<lparr>saves := Suc (saves s)\<rparr> in
      case save_err s (saves s) of
        None \<Rightarrow> s1\<lparr>state_file := Some (\<lambda>k. map_option (stringify (heap s)) (sm_state s k))\<rparr>
      | Some msg \<Rightarrow> print (''[State] Save failed: '' @ msg) s1)"

definition sm_get :: "string \<Rightarrow> 'w sys \<Rightarrow> nat snapshot option" where
  "sm_get tid s = sm_state s tid"

definition sm_set :: "string \<Rightarrow> nat tracked \<Rightarrow> 'w sys \<Rightarrow> 'w sys" where
  "sm_set tid d s =
     (case date_now s of
        (t, s1) \<Rightarrow> saveState (s1\<lparr>sm_state := (sm_state s1)(tid \<mapsto> merge (sm_state s1 tid) d t)\<rparr>))"

definition sm_delete :: "string \<Rightarrow> 'w sys \<Rightarrow> 'w sys" where
  "sm_delete tid s = saveState (s\<lparr>sm_state := (sm_state s)(tid := None)\<rparr>)"

subsection \<open>RuntimeTracker\<close>

text \<open>The message literals of the source are Chinese text; these are their UTF-8 bytes.\<close>

definition msg_start :: string where
  "msg_start = [CHR 0xE4, CHR 0xBB, CHR 0xBB, CHR 0xE5, CHR 0x8A, CHR 0xA1,
                CHR 0xE5, CHR 0xBC, CHR 0x80, CHR 0xE5, CHR 0xA7, CHR 0x8B]"

definition msg_complete :: string where
  "msg_complete = [CHR 0xE4, CHR 0xBB, CHR 0xBB, CHR 0xE5, CHR 0x8A, CHR 0xA1,
                   CHR 0xE5, CHR 0xAE, CHR 0x8C, CHR 0xE6, CHR 0x88, CHR 0x90]"

definition msg_fail :: string where
  "msg_fail = [CHR 0xE4, CHR 0xBB, CHR 0xBB, CHR 0xE5, CHR 0x8A, CHR 0xA1,
               CHR 0xE5, CHR 0xA4, CHR 0xB1, CHR 0xE8, CHR 0xB4, CHR 0xA5]"

definition msg_retry :: string where
  "msg_retry = [CHR 0xE9, CHR 0x87, CHR 0x8D, CHR 0xE8, CHR 0xAF, CHR 0x95, CHR 0x20, CHR 0x23]"

text \<open>The loop of \<open>triggerHook\<close>: every callback runs inside its own \<open>try\<close>/\<open>catch\<close>.\<close>

fun forEach :: "'w callback list \<Rightarrow> string \<Rightarrow> string \<Rightarrow> json \<Rightarrow> 'w sys \<Rightarrow> 'w sys" where
  "forEach [] hookName tid d s = s"
| "forEach (cb # cbs) hookName tid d s =
     (case cb tid d (stdout s, world s) of
        ((c, w), None) \<Rightarrow> forEach cbs hookName tid d (s\<lparr>stdout := c, world := w\<rparr>)
      | ((c, w), Some msg) \<Rightarrow>
          forEach cbs hookName tid d
            (print (''[Hook] '' @ hookName @ '' error: '' @ msg) (s\<lparr>stdout := c, world := w\<rparr>)))"

definition triggerHook :: "string \<Rightarrow> string \<Rightarrow> json \<Rightarrow> 'w sys \<Rightarrow> 'w sys" where
  "triggerHook hookName tid d s =
     (case hooks s hookName of
        None \<Rightarrow> s
      | Some cbs \<Rightarrow> forEach cbs hookName tid d (s\<lparr>fired := fired s @ [(hookName, tid, d)]\<rparr>))"

definition log :: "string \<Rightarrow> string \<Rightarrow> string \<Rightarrow> obj \<Rightarrow> 'w sys \<Rightarrow> 'w sys" where
  "log tid level message meta s =
     (case tracking s tid of
        None \<Rightarrow> s
      | Some t \<Rightarrow>
          (case date_now s of
             (ts, s1) \<Rightarrow>
               print (''[Track:'' @ tid @ ''] ['' @ level @ ''] '' @ message)
                 (s1\<lparr>heap := (heap s1)
                    (logs t := heap s1 (logs t) @
                       [spread [(''timestamp'', JNum (int ts)), (''level'', JStr level),
                                (''message'', JStr message)] meta])\<rparr>)))"

definition start :: "string \<Rightarrow> json \<Rightarrow> 'w sys \<Rightarrow> 'w sys" where
  "start tid d s =
     (case date_now s of
        (t0, s1) \<Rightarrow>
          (let a = fresh s1;
               s2 = s1\<lparr>tracking := (tracking s1)
                          (tid \<mapsto> \<lparr>taskId = tid, data = d, startedAt = t0, progress = 0,
                                  logs = a, status = Running, completedAt = None,
                                  result = None, duration = None, failedAt = None,
                                  error = None, retryAttempt = None\<rparr>),
                        heap := (heap s1)(a := []),
                        fresh := Suc a\<rparr>
           in triggerHook ''onTaskStart'' tid d (log tid ''TASK_START'' msg_start [] s2)))"

definition progress_to :: "string \<Rightarrow> nat \<Rightarrow> string \<Rightarrow> 'w sys \<Rightarrow> 'w sys" where
  "progress_to tid pct message s =
     (case tracking s tid of
        None \<Rightarrow> s
      | Some t \<Rightarrow>
          triggerHook ''onTaskProgress'' tid
            (JObj [(''percent'', JNum (int pct)), (''message'', JStr message)])
            (log tid ''PROGRESS'' message [(''percent'', JNum (int pct))]
               (s\<lparr>tracking := (tracking s)(tid \<mapsto> t\<lparr>progress := pct\<rparr>)\<rparr>)))"

text \<open>
  \<open>complete\<close> and \<open>fail\<close> end with \<open>stateManager.set(taskId, this.tracking[taskId])\<close>;
  neither \<open>log\<close> nor a callback changes the tracker map, so the record passed is the one
  just updated.
\<close>

definition complete :: "string \<Rightarrow> json \<Rightarrow> 'w sys \<Rightarrow> 'w sys" where
  "complete tid res s =
     (case tracking s tid of
        None \<Rightarrow> s
      | Some t \<Rightarrow>
          (case date_now s of
             (t1, s1) \<Rightarrow>
               (case date_now s1 of
                  (t2, s2) \<Rightarrow>
                    (let t' = t\<lparr>status := Completed, completedAt := Some t1,
                                result := Some res,
                                duration := Some (int t2 - int (startedAt t))\<rparr>;
                         s3 = s2\<lparr>tracking := (tracking s2)(tid \<mapsto> t')\<rparr>;
                         s4 = log tid ''COMPLETE'' msg_complete [(''result'', res)] s3;
                         s5 = triggerHook ''onTaskComplete'' tid res s4
                     in sm_set tid t' s5))))"

definition fail :: "string \<Rightarrow> string \<Rightarrow> 'w sys \<Rightarrow> 'w sys" where
  "fail tid err s =
     (case tracking s tid of
        None \<Rightarrow> s
      | Some t \<Rightarrow>
          (case date_now s of
             (t1, s1) \<Rightarrow>
               (case date_now s1 of
                  (t2, s2) \<Rightarrow>
                    (let t' = t\<lparr>status := Failed, failedAt := Some t1, error := Some err,
                                duration := Some (int t2 - int (startedAt t))\<rparr>;
                         s3 = s2\<lparr>tracking := (tracking s2)(tid \<mapsto> t')\<rparr>;
                         s4 = log tid ''ERROR'' msg_fail [(''error'', JStr err)] s3;
                         s5 = triggerHook ''onTaskFail'' tid (JObj [(''error'', JStr err)]) s4
                     in sm_set tid t' s5))))"

definition retry :: "string \<Rightarrow> nat \<Rightarrow> string \<Rightarrow> 'w sys \<Rightarrow> 'w sys" where
  "retry tid attempt err s =
     (case tracking s tid of
        None \<Rightarrow> s
      | Some t \<Rightarrow>
          triggerHook ''onTaskRetry'' tid
            (JObj [(''attempt'', JNum (int attempt)), (''error'', JStr err)])
            (log tid ''RETRY'' (msg_retry @ show_nat attempt) [(''error'', JStr err)]
               (s\<lparr>tracking := (tracking s)(tid \<mapsto> t\<lparr>retryAttempt := Some attempt\<rparr>)\<rparr>)))"

definition registerHook :: "string \<Rightarrow> 'w callback \<Rightarrow> 'w sys \<Rightarrow> 'w sys" where
  "registerHook event cb s =
     (case hooks s event of
        None \<Rightarrow> s
      | Some cbs \<Rightarrow>
          print (''[Hook] Registered: '' @ event) (s\<lparr>hooks := (hooks s)(event \<mapsto> cbs @ [cb])\<rparr>))"

subsection \<open>The default hooks and the module as loaded\<close>

text \<open>The emoji that open the default hooks' console lines, as UTF-8 bytes.\<close>

definition emoji_memo :: string where
  "emoji_memo = [CHR 0xF0, CHR 0x9F, CHR 0x93, CHR 0x9D]"

definition emoji_hourglass :: string where
  "emoji_hourglass = [CHR 0xE2, CHR 0x8F, CHR 0xB3]"

definition emoji_check :: string where
  "emoji_check = [CHR 0xE2, CHR 0x9C, CHR 0x85]"

definition emoji_cross :: string where
  "emoji_cross = [CHR 0xE2, CHR 0x9D, CHR 0x8C]"

definition emoji_arrows :: string where
  "emoji_arrows = [CHR 0xF0, CHR 0x9F, CHR 0x94, CHR 0x84]"

text \<open>
  A parameter pattern \<open>{ a, b }\<close> throws a TypeError on \<open>null\<close> and reads \<open>undefined\<close>
  from a value that has no such property.
\<close>

definition destructure :: "json \<Rightarrow> string \<Rightarrow> string + json option" where
  "destructure d k =
     (case d of
        JNull \<Rightarrow> Inl (''Cannot destructure property '' @ k)
      | JObj ob \<Rightarrow> Inr (field ob k)
      | _ \<Rightarrow> Inr None)"

definition onStartDefault :: "'w callback" where
  "onStartDefault tid d cw =
     ((fst cw @ [emoji_memo @ '' Task started: '' @ tid], snd cw), None)"

definition onProgressDefault :: "'w callback" where
  "onProgressDefault tid d cw =
     (case destructure d ''percent'' of
        Inl msg \<Rightarrow> (cw, Some msg)
      | Inr pct \<Rightarrow>
          (case destructure d ''message'' of
             Inl msg \<Rightarrow> (cw, Some msg)
           | Inr m \<Rightarrow>
               ((fst cw @ [emoji_hourglass @ '' Task progress: '' @ tid @ '' - '' @ to_str pct
                           @ ''% - '' @ to_str m], snd cw), None)))"

definition onCompleteDefault :: "'w callback" where
  "onCompleteDefault tid d cw =
     ((fst cw @ [emoji_check @ '' Task completed: '' @ tid], snd cw), None)"

definition onFailDefault :: "'w callback" where
  "onFailDefault tid d cw =
     (case destructure d ''error'' of
        Inl msg \<Rightarrow> (cw, Some msg)
      | Inr e \<Rightarrow>
          ((fst cw @ [emoji_cross @ '' Task failed: '' @ tid @ '' - '' @ to_str e], snd cw), None))"

definition onRetryDefault :: "'w callback" where
  "onRetryDefault tid d cw =
     (case destructure d ''attempt'' of
        Inl msg \<Rightarrow> (cw, Some msg)
      | Inr a \<Rightarrow>
          ((fst cw @ [emoji_arrows @ '' Task retry: '' @ tid @ '' - Attempt #'' @ to_str a],
            snd cw), None))"

text \<open>
  The registry literal with its five empty lists, and the state once the module has
  registered its five default hooks: nothing tracked, no state file read.
\<close>

definition no_hooks :: "string \<rightharpoonup> 'w callback list" where
  "no_hooks =
     [''onTaskStart'' \<mapsto> [], ''onTaskProgress'' \<mapsto> [], ''onTaskComplete'' \<mapsto> [],
      ''onTaskFail'' \<mapsto> [], ''onTaskRetry'' \<mapsto> []]"

definition blank :: "(nat \<Rightarrow> nat) \<Rightarrow> (nat \<Rightarrow> string option) \<Rightarrow> 'w \<Rightarrow> 'w sys" where
  "blank clk sv w =
     \<lparr>tracking = Map.empty, heap = (\<lambda>_. []), fresh = 0, sm_state = Map.empty,
      state_file = None, hooks = no_hooks, stdout = [], world = w, fired = [],
      clock = clk, ticks = 0, save_err = sv, saves = 0\<rparr>"

definition boot :: "(nat \<Rightarrow> nat) \<Rightarrow> (nat \<Rightarrow> string option) \<Rightarrow> 'w \<Rightarrow> 'w sys" where
  "boot clk sv w =
     registerHook ''onTaskRetry'' onRetryDefault
       (registerHook ''onTaskFail'' onFailDefault
          (registerHook ''onTaskComplete'' onCompleteDefault
             (registerHook ''onTaskProgress'' onProgressDefault
                (registerHook ''onTaskStart'' onStartDefault (blank clk sv w)))))"

subsection \<open>The worker\<close>

text \<open>
  A step has a name and an optional \<open>execute\<close>, which acts on the outside world and
  either resolves or rejects with an error message. The pause after a step only lets time
  pass, which \<open>clock\<close> accounts for.
\<close>

record 'w step =
  step_name :: string
  execute :: "('w \<Rightarrow> 'w \<times> string option) option"

record 'w job_data =
  job_taskId :: string
  job_payload :: json
  steps :: "'w step list"

text \<open>
  \<open>Math.round((i / steps.length) * 100)\<close>. The quotient and the product are rounded to
  doubles, which moves the value by less than one part in a million millions; \<open>Math.round\<close> then rounds
  to the nearest integer, halves upwards. For array lengths this differs from rounding
  the exact value \<open>100 i / n\<close> only when that value lies exactly half-way between two
  integers, where the double may fall on either side (23/40 gives 57, 1/8 gives 13).
  The parameter \<open>up\<close> says on which: \<open>up i n\<close> holds when the double is at least the
  half-way value.
\<close>

definition percent :: "(nat \<Rightarrow> nat \<Rightarrow> bool) \<Rightarrow> nat \<Rightarrow> nat \<Rightarrow> nat" where
  "percent up i n =
     (if (200 * i) mod (2 * n) = n \<and> \<not> up i n then (100 * i) div n
      else (200 * i + n) div (2 * n))"

text \<open>The \<open>for\<close> loop over the steps, from index \<open>i\<close>; \<open>n\<close> is \<open>steps.length\<close>.\<close>

fun run_steps ::
    "(nat \<Rightarrow> nat \<Rightarrow> bool) \<Rightarrow> string \<Rightarrow> nat \<Rightarrow> nat \<Rightarrow> 'w step list \<Rightarrow> 'w sys
       \<Rightarrow> string option \<times> 'w sys" where
  "run_steps up tid n i [] s = (None, s)"
| "run_steps up tid n i (st # rest) s =
     (let s1 = progress_to tid (percent up i n)
                 (''Step '' @ show_nat (i + 1) @ '': '' @ step_name st) s
      in case execute st of
           None \<Rightarrow> run_steps up tid n (Suc i) rest s1
         | Some f \<Rightarrow>
             (case f (world s1) of
                (w, Some err) \<Rightarrow> (Some err, s1\<lparr>world := w\<rparr>)
              | (w, None) \<Rightarrow> run_steps up tid n (Suc i) rest (s1\<lparr>world := w\<rparr>)))"

text \<open>The Worker callback: \<open>None\<close> when it returns, \<open>Some err\<close> when it rethrows.\<close>

definition processJob ::
    "(nat \<Rightarrow> nat \<Rightarrow> bool) \<Rightarrow> 'w job_data \<Rightarrow> 'w sys \<Rightarrow> string option \<times> 'w sys" where
  "processJob up jb s =
     (let tid = job_taskId jb;
          s1 = start tid (job_payload jb)
                 (print (''[Worker] Processing task: '' @ tid) s)
      in case run_steps up tid (length (steps jb)) 0 (steps jb) s1 of
           (None, s2) \<Rightarrow> (None, complete tid (JObj [(''success'', JBool True)]) s2)
         | (Some err, s2) \<Rightarrow> (Some err, fail tid err s2))"

text \<open>
  Modelled from the spec: the retry loop of the BullMQ Worker, a library that is not part
  of the sources. Section 4.3: a failed attempt is run again up to the configured attempt
  ceiling, after which the job stays failed. \<open>runJob k\<close> runs the callback with \<open>k\<close>
  attempts left; the \<open>completed\<close> and \<open>failed\<close> listeners of the source print a line.
\<close>

fun runJob :: "(nat \<Rightarrow> nat \<Rightarrow> bool) \<Rightarrow> nat \<Rightarrow> 'w job_data \<Rightarrow> 'w sys \<Rightarrow> 'w sys" where
  "runJob up 0 jb s = s"
| "runJob up (Suc k) jb s =
     (case processJob up jb s of
        (None, s1) \<Rightarrow> print (''[Worker] Job completed: '' @ job_taskId jb) s1
      | (Some err, s1) \<Rightarrow>
          runJob up k jb
            (print (''[Worker] Job failed: '' @ job_taskId jb @ '' - '' @ err) s1))"


text \<open>How often an event has been dispatched, and the percents the progress hook was given.\<close>

definition fired_count :: "string \<Rightarrow> 'w sys \<Rightarrow> nat" where
  "fired_count hookName s = length (filter (\<lambda>e. fst e = hookName) (fired s))"

fun percent_of :: "json \<Rightarrow> int list" where
  "percent_of (JObj ob) = (case field ob ''percent'' of Some (JNum p) \<Rightarrow> [p] | _ \<Rightarrow> [])"
| "percent_of _ = []"

definition progress_values :: "(string \<times> string \<times> json) list \<Rightarrow> int list" where
  "progress_values evs =
     concat (map (\<lambda>e. percent_of (snd (snd e))) (filter (\<lambda>e. fst e = ''onTaskProgress'') evs))"

text \<open>The progress values one run of the Worker callback reports.\<close>

definition reported :: "(nat \<Rightarrow> nat \<Rightarrow> bool) \<Rightarrow> 'w job_data \<Rightarrow> 'w sys \<Rightarrow> int list" where
  "reported up jb s =
     progress_values (drop (length (fired s)) (fired (snd (processJob up jb s))))"

subsection \<open>Operation sequences\<close>

text \<open>
  What the module does to the state manager it does through the tracker: \<open>set\<close> is called
  by \<open>complete\<close> and \<open>fail\<close> only, \<open>delete\<close> by nobody. An operation of the core is a
  tracker call, a hook registration, one run of the Worker callback or a whole job.
\<close>

datatype 'w op =
    Start string json
  | Log string string string obj
  | Progress string nat string
  | Complete string json
  | Fail string string
  | Retry string nat string
  | Register string "'w callback"
  | Process "nat \<Rightarrow> nat \<Rightarrow> bool" "'w job_data"
  | Job "nat \<Rightarrow> nat \<Rightarrow> bool" nat "'w job_data"

fun apply_op :: "'w op \<Rightarrow> 'w sys \<Rightarrow> 'w sys" where
  "apply_op (Start tid d) s = start tid d s"
| "apply_op (Log tid level message meta) s = log tid level message meta s"
| "apply_op (Progress tid pct message) s = progress_to tid pct message s"
| "apply_op (Complete tid res) s = complete tid res s"
| "apply_op (Fail tid err) s = fail tid err s"
| "apply_op (Retry tid attempt err) s = retry tid attempt err s"
| "apply_op (Register event cb) s = registerHook event cb s"
| "apply_op (Process up jb) s = snd (processJob up jb s)"
| "apply_op (Job up k jb) s = runJob up k jb s"

fun exec :: "'w op list \<Rightarrow> 'w sys \<Rightarrow> 'w sys" where
  "exec [] s = s"
| "exec (a # ops) s = exec ops (apply_op a s)"

definition terminal :: "status \<Rightarrow> bool" where
  "terminal st = (st = Completed \<or> st = Failed)"

text \<open>Every persisted snapshot, in memory and in the state file, has a terminal status.\<close>

definition persisted_ok :: "'w sys \<Rightarrow> bool" where
  "persisted_ok s =
     ((\<forall>e \<in> ran (sm_state s). terminal (status e))
      \<and> (\<forall>f. state_file s = Some f \<longrightarrow> (\<forall>e \<in> ran f. terminal (status e))))"


text \<open>
  \<open>keeps_terminal s s'\<close>: every task persisted in \<open>s\<close> with a terminal status is still
  persisted with a terminal status in \<open>s'\<close>.
\<close>

definition keeps_terminal :: "'w sys \<Rightarrow> 'w sys \<Rightarrow> bool" where
  "keeps_terminal s s' =
     (\<forall>tid e. sm_state s tid = Some e \<and> terminal (status e) \<longrightarrow>
        (\<exists>e'. sm_state s' tid = Some e' \<and> terminal (status e')))"


section \<open>Concrete inputs\<close>

definition env0 :: io where
  "env0 = \<lparr>now = 1700000000000, iso = ''2023-11-14T22:13:20.000Z'', rand = ''k3j9x2m1q'',
           write_err = None, ping_ok = False, add_res = Inl ''Connection is closed.'',
           list_err = None, remove_err = None, count_err = None\<rparr>"


definition env_up :: io where
  "env_up = env0\<lparr>ping_ok := True, add_res := Inr ''1''\<rparr>"

definition task1 :: obj where
  "task1 = [(''name'', JStr ''t1''), (''data'', JObj [(''msg'', JStr ''hello'')])]"

definition task2 :: obj where
  "task2 = [(''name'', JStr ''t2''), (''data'', JObj [(''msg'', JStr ''world'')])]"


text \<open>The module after \<open>init\<close> when the connection attempt failed, and when it succeeded.\<close>

definition after_failed_connect :: qstate where
  "after_failed_connect = snd (initRedis (Some ''connect ECONNREFUSED'') (loaded Missing []))"

definition after_connect :: qstate where
  "after_connect = snd (initRedis None (loaded Missing []))"

definition half_up :: "nat \<Rightarrow> nat \<Rightarrow> bool" where
  "half_up i n = True"

definition clock0 :: "nat \<Rightarrow> nat" where
  "clock0 k = 1700000000000 + k"

definition disk_fine :: "nat \<Rightarrow> string option" where
  "disk_fine k = None"

definition boot0 :: "unit sys" where
  "boot0 = boot clock0 disk_fine ()"

definition plain_step :: "unit step" where
  "plain_step = \<lparr>step_name = ''work'', execute = None\<rparr>"



definition steps_job :: "nat \<Rightarrow> unit job_data" where
  "steps_job n =
     \<lparr>job_taskId = ''t2'', job_payload = JObj [(''message'', JStr ''test data'')],
      steps = replicate n plain_step\<rparr>"







text \<open>
  The state after a two-step task has run to completion, and a later rerun of the same task
  id that has been started and has reported progress.
\<close>

definition done_state :: "unit sys" where
  "done_state = snd (processJob half_up (steps_job 2) boot0)"

definition reopen :: "unit op list" where
  "reopen = [Start ''t2'' JNull, Progress ''t2'' 50 ''Halfway done'']"


section \<open>Properties of the file queue and the facade\<close>



lemma contents_Stored: "queue_file s = Stored q \<Longrightarrow> fst (readFileQueue s) = q"
  by (simp add: readFileQueue_def)

lemma readFileQueue_file: "queue_file (snd (readFileQueue s)) = queue_file s"
  by (simp add: readFileQueue_def say_def split: qfile.splits)

lemma contents_cong:
  "queue_file s' = queue_file s \<Longrightarrow> fst (readFileQueue s') = fst (readFileQueue s)"
  by (simp add: readFileQueue_def split: qfile.splits)

lemma fileEnqueue_result: "fst (fileEnqueue env task s) = taskWithId env task"
  by (simp add: fileEnqueue_def fileEnqueue_store_def Let_def split_beta)

lemma fileEnqueue_written:
  "write_err env = None \<Longrightarrow>
   queue_file (snd (fileEnqueue env task s)) = Stored (fst (readFileQueue s) @ [taskWithId env task])"
  by (simp add: fileEnqueue_def fileEnqueue_store_def writeFileQueue_def say_def Let_def split_beta)















lemma field_Cons: "field ((k, v) # ob) k' = (if k' = k then Some v else field ob k')"
  by (simp add: field_def)

lemma field_Nil: "field [] k = None"
  by (simp add: field_def)

lemma field_put: "field (put k v ob) k' = (if k' = k then Some v else field ob k')"
  by (induction ob) (auto simp: field_Cons field_Nil)


lemma field_None_iff: "field ob k = None \<longleftrightarrow> k \<notin> fst ` set ob"
  by (simp add: field_def map_of_eq_None_iff)














lemma fileEnqueue_store_result: "fst (fileEnqueue_store env task q s) = taskWithId env task"
  by (simp add: fileEnqueue_store_def Let_def)

lemma fileEnqueue_store_written:
  "write_err env = None \<Longrightarrow>
   queue_file (snd (fileEnqueue_store env task q s)) = Stored (q @ [taskWithId env task])"
  by (simp add: fileEnqueue_store_def writeFileQueue_def say_def Let_def)

lemma interleaved_enqueue_result:
  "fst (interleaved_enqueue env1 ta env2 tb s) = (taskWithId env1 ta, taskWithId env2 tb)"
  by (simp add: interleaved_enqueue_def split_beta fileEnqueue_store_result)

lemma interleaved_enqueue_file:
  "write_err env2 = None \<Longrightarrow>
   queue_file (snd (interleaved_enqueue env1 ta env2 tb s))
     = Stored (fst (readFileQueue s) @ [taskWithId env2 tb])"
  by (simp add: interleaved_enqueue_def split_beta fileEnqueue_store_written
      contents_cong [OF readFileQueue_file])

lemma sequential_enqueue_result:
  "fst (sequential_enqueue env1 ta env2 tb s) = (taskWithId env1 ta, taskWithId env2 tb)"
  by (simp add: sequential_enqueue_def split_beta fileEnqueue_result)

lemma sequential_enqueue_file:
  "write_err env1 = None \<Longrightarrow> write_err env2 = None \<Longrightarrow>
   queue_file (snd (sequential_enqueue env1 ta env2 tb s))
     = Stored (fst (readFileQueue s) @ [taskWithId env1 ta, taskWithId env2 tb])"
  by (simp add: sequential_enqueue_def split_beta fileEnqueue_written
      contents_Stored [OF fileEnqueue_written])

text \<open>
  C8 as stated, at two enqueues on an empty queue file. Neither call takes a lock, so the
  second caller can read before the first has written: both calls return their record, the
  file ends up holding the second record only. Under an exclusive lock held across each
  read-modify-write the file would hold both, as after the sequential run.
\<close>

theorem file_queue_lock_counterexample:
  "fst (interleaved_enqueue env0 task1 env0 task2 (loaded (Stored []) []))
     = (taskWithId env0 task1, taskWithId env0 task2)
   \<and> queue_file (snd (interleaved_enqueue env0 task1 env0 task2 (loaded (Stored []) [])))
     = Stored [taskWithId env0 task2]
   \<and> queue_file (snd (sequential_enqueue env0 task1 env0 task2 (loaded (Stored []) [])))
     = Stored [taskWithId env0 task1, taskWithId env0 task2]"
  by (simp add: interleaved_enqueue_result interleaved_enqueue_file sequential_enqueue_file
      env0_def loaded_def readFileQueue_def)

text \<open>
  C8, amended. Every mutating file-queue call is one read of the whole file followed by
  one write of the whole array, with no lock around them. Two enqueues that run one after
  the other store both records; when the second caller reads before the first has written,
  both calls still return their record and the later write keeps only the second one.
\<close>

theorem file_queue_unlocked_read_modify_write:
  assumes "write_err env1 = None" and "write_err env2 = None"
  shows "fileEnqueue env1 ta s
           = fileEnqueue_store env1 ta (fst (readFileQueue s)) (snd (readFileQueue s))
       \<and> fileDequeue env1 s = fileDequeue_store env1 (fst (readFileQueue s)) (snd (readFileQueue s))
       \<and> queue_file (snd (sequential_enqueue env1 ta env2 tb s))
           = Stored (fst (readFileQueue s) @ [taskWithId env1 ta, taskWithId env2 tb])
       \<and> fst (interleaved_enqueue env1 ta env2 tb s)
           = (taskWithId env1 ta, taskWithId env2 tb)
       \<and> queue_file (snd (interleaved_enqueue env1 ta env2 tb s))
           = Stored (fst (readFileQueue s) @ [taskWithId env2 tb])"
proof (intro conjI)
  show "fileEnqueue env1 ta s
          = fileEnqueue_store env1 ta (fst (readFileQueue s)) (snd (readFileQueue s))"
    by (simp add: fileEnqueue_def split_beta)
  show "fileDequeue env1 s = fileDequeue_store env1 (fst (readFileQueue s)) (snd (readFileQueue s))"
    by (simp add: fileDequeue_def split_beta)
  show "queue_file (snd (sequential_enqueue env1 ta env2 tb s))
          = Stored (fst (readFileQueue s) @ [taskWithId env1 ta, taskWithId env2 tb])"
    using assms by (simp add: sequential_enqueue_file)
  show "fst (interleaved_enqueue env1 ta env2 tb s)
          = (taskWithId env1 ta, taskWithId env2 tb)"
    by (rule interleaved_enqueue_result)
  show "queue_file (snd (interleaved_enqueue env1 ta env2 tb s))
          = Stored (fst (readFileQueue s) @ [taskWithId env2 tb])"
    using assms(2) by (rule interleaved_enqueue_file)
qed

text \<open>C8 amended, at two enqueues on an absent file.\<close>

theorem file_queue_unlocked_read_modify_write_witness:
  "write_err env0 = None
   \<and> queue_file (snd (sequential_enqueue env0 task1 env0 task2 (loaded Missing [])))
       = Stored [taskWithId env0 task1, taskWithId env0 task2]
   \<and> queue_file (snd (interleaved_enqueue env0 task1 env0 task2 (loaded Missing [])))
       = Stored [taskWithId env0 task2]"
proof -
  have w: "write_err env0 = None" by (simp add: env0_def)
  show ?thesis
    using w file_queue_unlocked_read_modify_write [OF w w, of task1 "loaded Missing []" task2]
    by (simp add: loaded_def readFileQueue_def)
qed



lemma checkRedis_iff: "checkRedis env s \<longleftrightarrow> redis s \<and> ping_ok env"
  by (simp add: checkRedis_def)

lemma readFileQueue_flags:
  "useRedis (snd (readFileQueue s)) = useRedis s" "redis (snd (readFileQueue s)) = redis s"
  by (simp_all add: readFileQueue_def say_def split: qfile.splits)

lemma writeFileQueue_flags:
  "useRedis (writeFileQueue env q s) = useRedis s" "redis (writeFileQueue env q s) = redis s"
  by (simp_all add: writeFileQueue_def say_def split: option.splits)

lemma fileEnqueue_flags:
  "useRedis (snd (fileEnqueue env task s)) = useRedis s"
  "redis (snd (fileEnqueue env task s)) = redis s"
  by (simp_all add: fileEnqueue_def fileEnqueue_store_def Let_def split_beta say_def
      writeFileQueue_flags readFileQueue_flags)

lemma fileDequeue_flags:
  "useRedis (snd (fileDequeue env s)) = useRedis s"
  "redis (snd (fileDequeue env s)) = redis s"
  by (simp_all add: fileDequeue_def fileDequeue_store_def split_beta say_def
      writeFileQueue_flags readFileQueue_flags split: list.splits)

lemma filePeek_flags:
  "useRedis (snd (filePeek s)) = useRedis s"
  "redis (snd (filePeek s)) = redis s"
  by (simp_all add: filePeek_def split_beta readFileQueue_flags split: list.splits)

lemma enqueue_flags:
  "useRedis (snd (enqueue env task s)) = useRedis s"
  "redis (snd (enqueue env task s)) = redis s"
  by (simp_all add: enqueue_def Let_def fileEnqueue_flags fileFallback_def say_def
      split: sum.splits)

lemma dequeue_flags:
  "useRedis (snd (dequeue env s)) = useRedis s"
  "redis (snd (dequeue env s)) = redis s"
  by (simp_all add: dequeue_def Let_def fileDequeue_flags fileFallback_def say_def
      split: option.splits list.splits)

lemma peek_flags:
  "useRedis (snd (peek env s)) = useRedis s"
  "redis (snd (peek env s)) = redis s"
  by (simp_all add: peek_def Let_def filePeek_flags say_def
      split: option.splits list.splits)

lemma getStats_flags:
  "useRedis (snd (getStats env s)) = useRedis s"
  "redis (snd (getStats env s)) = redis s"
  by (simp_all add: getStats_def Let_def split_beta readFileQueue_flags say_def
      split: option.splits)

lemma facade_file_path:
  "\<not> (redis s \<and> ping_ok env \<and> useRedis s) \<Longrightarrow>
     enqueue env task s = fileEnqueue env task (fileFallback s)
   \<and> dequeue env s = fileDequeue env (fileFallback s)
   \<and> peek env s = filePeek s
   \<and> redis_waiting (fst (getStats env s)) = 0
   \<and> waiting (snd (getStats env s)) = waiting s"
  by (auto simp: enqueue_def dequeue_def peek_def getStats_def checkRedis_def Let_def split_beta
      readFileQueue_def say_def split: qfile.splits)


lemma keys_put: "fst ` set (put k v ob) = insert k (fst ` set ob)"
  by (induction ob) (force split: if_splits)+

lemma distinct_put: "distinct (map fst ob) \<Longrightarrow> distinct (map fst (put k v ob))"
proof (induction ob)
  case Nil
  then show ?case by simp
next
  case (Cons p ob)
  obtain a b where p: "p = (a, b)" by (cases p)
  show ?case
  proof (cases "k = a")
    case True
    then show ?thesis using Cons.prems p by simp
  next
    case False
    have "a \<notin> fst ` set (put k v ob)"
      using Cons.prems p False by (simp add: keys_put)
    then show ?thesis using Cons p False by simp
  qed
qed

lemma distinct_spread: "distinct (map fst base) \<Longrightarrow> distinct (map fst (spread base src))"
  by (induction base src rule: spread.induct) (simp_all add: distinct_put)

lemma field_spread:
  "field (spread base src) k = (case field (rev src) k of Some v \<Rightarrow> Some v | None \<Rightarrow> field base k)"
proof (induction base src rule: spread.induct)
  case (1 base)
  then show ?case by (simp add: field_Nil)
next
  case (2 base k' v' src)
  have "field (rev ((k', v') # src)) k =
          (case field (rev src) k of Some v \<Rightarrow> Some v | None \<Rightarrow> if k = k' then Some v' else None)"
    by (simp add: field_def map_add_def split: option.splits)
  then show ?case using 2 by (simp add: field_put split: option.splits)
qed

lemma field_rev: "distinct (map fst ob) \<Longrightarrow> field (rev ob) k = field ob k"
proof (induction ob)
  case Nil
  then show ?case by simp
next
  case (Cons p ob)
  obtain a b where p: "p = (a, b)" by (cases p)
  have ih: "field (rev ob) k = field ob k" using Cons by simp
  have "a \<notin> fst ` set ob" using Cons.prems p by simp
  then have n: "field ob a = None" by (simp add: field_None_iff)
  show ?case using ih n p
    by (auto simp: field_def map_add_def split: option.splits)
qed

lemma distinct_taskData: "distinct (map fst (taskData env task))"
  by (simp add: taskData_def distinct_put distinct_spread)

lemma taskData_source: "field (taskData env task) ''source'' = Some (JStr ''redis'')"
  by (simp add: taskData_def field_put)

lemma taskWithId_source: "field (taskWithId env task) ''source'' = Some (JStr ''file'')"
  by (simp add: taskWithId_def field_put)

lemma redis_record_source:
  "field (spread [(''id'', JStr j)] (taskData env task)) ''source'' = Some (JStr ''redis'')"
  by (simp add: field_spread field_rev distinct_taskData taskData_source)

lemma facade_broker_path:
  "redis s \<Longrightarrow> ping_ok env \<Longrightarrow> useRedis s \<Longrightarrow> add_res env = Inr j \<Longrightarrow>
     field (fst (enqueue env task s)) ''source'' = Some (JStr ''redis'')
   \<and> waiting (snd (enqueue env task s))
       = waiting s @ [\<lparr>jid = j, jname = jobName task, jdata = taskData env task\<rparr>]
   \<and> queue_file (snd (enqueue env task s)) = queue_file s"
  by (simp add: enqueue_def checkRedis_def Let_def say_def redis_record_source)

lemma facade_file_source:
  "\<not> (redis s \<and> ping_ok env \<and> useRedis s) \<Longrightarrow>
   field (fst (enqueue env task s)) ''source'' = Some (JStr ''file'')"
  using facade_file_path [of s env task]
  by (simp add: fileEnqueue_result taskWithId_source)


lemma facade_broker_dequeue:
  "redis s \<Longrightarrow> ping_ok env \<Longrightarrow> useRedis s \<Longrightarrow> list_err env = None \<Longrightarrow>
   remove_err env = None \<Longrightarrow> waiting s = j # rest \<Longrightarrow>
     fst (dequeue env s) = Some (spread [(''id'', JStr (jid j))] (jdata j))
   \<and> waiting (snd (dequeue env s)) = rest
   \<and> queue_file (snd (dequeue env s)) = queue_file s"
  by (simp add: dequeue_def checkRedis_def Let_def say_def)

lemma getStats_available: "redis_available (fst (getStats env s)) = checkRedis env s"
  by (simp add: getStats_def Let_def split_beta)

lemma initRedis_failed:
  "redis (snd (initRedis (Some msg) s))" "\<not> useRedis (snd (initRedis (Some msg) s))"
  "queue_file (snd (initRedis (Some msg) s)) = queue_file s"
  "waiting (snd (initRedis (Some msg) s)) = waiting s"
  by (simp_all add: initRedis_def Let_def say_def)

lemma initRedis_connected:
  "redis (snd (initRedis None s))" "useRedis (snd (initRedis None s))"
  "queue_file (snd (initRedis None s)) = queue_file s"
  "waiting (snd (initRedis None s)) = waiting s"
  by (simp_all add: initRedis_def Let_def say_def)

lemma fileEnqueue_waiting: "waiting (snd (fileEnqueue env task s)) = waiting s"
  by (simp add: fileEnqueue_def fileEnqueue_store_def Let_def split_beta say_def
      writeFileQueue_def readFileQueue_def split: option.splits qfile.splits)

text \<open>
  C1 as stated, at a module whose connection attempt at \<open>init\<close> failed and a broker that
  answers the ping of this call: the probe succeeds, and the record still goes to the file
  queue, because \<open>useRedis\<close> is still false.
\<close>

theorem facade_stale_flag_counterexample:
  "checkRedis env_up after_failed_connect
   \<and> field (fst (enqueue env_up task1 after_failed_connect)) ''source'' = Some (JStr ''file'')
   \<and> waiting (snd (enqueue env_up task1 after_failed_connect)) = []"
proof -
  have n: "\<not> (redis after_failed_connect \<and> ping_ok env_up \<and> useRedis after_failed_connect)"
    by (simp add: after_failed_connect_def initRedis_failed)
  have "checkRedis env_up after_failed_connect"
    by (simp add: checkRedis_def after_failed_connect_def initRedis_failed env_up_def)
  moreover have "field (fst (enqueue env_up task1 after_failed_connect)) ''source''
                   = Some (JStr ''file'')"
    using n by (rule facade_file_source)
  moreover have "waiting (snd (enqueue env_up task1 after_failed_connect)) = []"
    using facade_file_path [OF n, of task1]
    by (simp add: fileEnqueue_waiting fileFallback_def say_def after_failed_connect_def
        initRedis_failed loaded_def)
  ultimately show ?thesis by simp
qed

text \<open>
  C1, amended. Every facade operation probes the broker afresh (a ping, whenever a client
  object exists). A failed probe always sends the call to the file queue, so a broker that
  became unreachable is honoured by the very next call. A successful probe sends the call
  to the broker only if the flag \<open>useRedis\<close> is set, and no facade operation changes that
  flag: it is what \<open>initRedis\<close> left. A broker that becomes reachable after a failed
  initial connect is therefore not used.
\<close>

theorem facade_backend_choice:
  "(checkRedis env s \<longleftrightarrow> redis s \<and> ping_ok env)
   \<and> redis_available (fst (getStats env s)) = checkRedis env s
   \<and> (\<not> (checkRedis env s \<and> useRedis s) \<longrightarrow>
         enqueue env task s = fileEnqueue env task (fileFallback s)
       \<and> dequeue env s = fileDequeue env (fileFallback s)
       \<and> peek env s = filePeek s
       \<and> redis_waiting (fst (getStats env s)) = 0
       \<and> field (fst (enqueue env task s)) ''source'' = Some (JStr ''file''))
   \<and> (checkRedis env s \<and> useRedis s \<and> add_res env = Inr j \<longrightarrow>
         field (fst (enqueue env task s)) ''source'' = Some (JStr ''redis'')
       \<and> waiting (snd (enqueue env task s))
           = waiting s @ [\<lparr>jid = j, jname = jobName task, jdata = taskData env task\<rparr>]
       \<and> queue_file (snd (enqueue env task s)) = queue_file s)
   \<and> (checkRedis env s \<and> useRedis s \<and> list_err env = None \<and> remove_err env = None
        \<and> waiting s = jb # rest \<longrightarrow>
         fst (dequeue env s) = Some (spread [(''id'', JStr (jid jb))] (jdata jb))
       \<and> waiting (snd (dequeue env s)) = rest
       \<and> queue_file (snd (dequeue env s)) = queue_file s)
   \<and> useRedis (snd (enqueue env task s)) = useRedis s
   \<and> useRedis (snd (dequeue env s)) = useRedis s
   \<and> useRedis (snd (peek env s)) = useRedis s
   \<and> useRedis (snd (getStats env s)) = useRedis s"
proof (intro conjI impI)
  show "checkRedis env s \<longleftrightarrow> redis s \<and> ping_ok env"
    by (rule checkRedis_iff)
  show "redis_available (fst (getStats env s)) = checkRedis env s"
    by (rule getStats_available)
  show "useRedis (snd (enqueue env task s)) = useRedis s"
       "useRedis (snd (dequeue env s)) = useRedis s"
       "useRedis (snd (peek env s)) = useRedis s"
       "useRedis (snd (getStats env s)) = useRedis s"
    by (simp_all add: enqueue_flags dequeue_flags peek_flags getStats_flags)
next
  assume "\<not> (checkRedis env s \<and> useRedis s)"
  then have n: "\<not> (redis s \<and> ping_ok env \<and> useRedis s)"
    by (simp add: checkRedis_iff)
  show "enqueue env task s = fileEnqueue env task (fileFallback s)"
       "dequeue env s = fileDequeue env (fileFallback s)"
       "peek env s = filePeek s"
       "redis_waiting (fst (getStats env s)) = 0"
    using facade_file_path [OF n] by simp_all
  show "field (fst (enqueue env task s)) ''source'' = Some (JStr ''file'')"
    using n by (rule facade_file_source)
next
  assume "checkRedis env s \<and> useRedis s \<and> add_res env = Inr j"
  then have h: "redis s" "ping_ok env" "useRedis s" "add_res env = Inr j"
    by (simp_all add: checkRedis_iff)
  show "field (fst (enqueue env task s)) ''source'' = Some (JStr ''redis'')"
       "waiting (snd (enqueue env task s))
          = waiting s @ [\<lparr>jid = j, jname = jobName task, jdata = taskData env task\<rparr>]"
       "queue_file (snd (enqueue env task s)) = queue_file s"
    using facade_broker_path [OF h] by simp_all
next
  assume "checkRedis env s \<and> useRedis s \<and> list_err env = None \<and> remove_err env = None
            \<and> waiting s = jb # rest"
  then have h: "redis s" "ping_ok env" "useRedis s" "list_err env = None"
      "remove_err env = None" "waiting s = jb # rest"
    by (simp_all add: checkRedis_iff)
  show "fst (dequeue env s) = Some (spread [(''id'', JStr (jid jb))] (jdata jb))"
       "waiting (snd (dequeue env s)) = rest"
       "queue_file (snd (dequeue env s)) = queue_file s"
    using facade_broker_dequeue [OF h] by simp_all
qed

text \<open>
  C1 amended, at a connected module: with the broker answering, the record goes to the
  broker; with the broker silent on the next call, the record goes to the file.
\<close>

theorem facade_backend_choice_witness:
  "(checkRedis env_up after_connect \<and> useRedis after_connect \<and> add_res env_up = Inr ''1'')
   \<and> field (fst (enqueue env_up task1 after_connect)) ''source'' = Some (JStr ''redis'')
   \<and> \<not> (checkRedis env0 (snd (enqueue env_up task1 after_connect))
          \<and> useRedis (snd (enqueue env_up task1 after_connect)))
   \<and> field (fst (enqueue env0 task2 (snd (enqueue env_up task1 after_connect)))) ''source''
       = Some (JStr ''file'')"
proof -
  have a: "checkRedis env_up after_connect \<and> useRedis after_connect \<and> add_res env_up = Inr ''1''"
    by (simp add: checkRedis_def after_connect_def initRedis_connected env_up_def)
  have b: "\<not> (checkRedis env0 (snd (enqueue env_up task1 after_connect))
              \<and> useRedis (snd (enqueue env_up task1 after_connect)))"
    by (simp add: checkRedis_def env0_def)
  have x: "field (fst (enqueue env_up task1 after_connect)) ''source'' = Some (JStr ''redis'')"
    using a facade_backend_choice [of env_up after_connect task1 "''1''"] by blast
  have y: "field (fst (enqueue env0 task2 (snd (enqueue env_up task1 after_connect)))) ''source''
             = Some (JStr ''file'')"
    using b facade_backend_choice [of env0 "snd (enqueue env_up task1 after_connect)" task2]
    by blast
  show ?thesis using a b x y by blast
qed


section \<open>Properties of the orchestrator\<close>

subsection \<open>What each tracker operation leaves alone\<close>

lemma print_frame [simp]:
  "tracking (print l s) = tracking s" "sm_state (print l s) = sm_state s"
  "state_file (print l s) = state_file s" "hooks (print l s) = hooks s"
  "fired (print l s) = fired s" "world (print l s) = world s"
  "heap (print l s) = heap s" "stdout (print l s) = stdout s @ [l]"
  "clock (print l s) = clock s" "ticks (print l s) = ticks s"
  "save_err (print l s) = save_err s" "saves (print l s) = saves s"
  by (simp_all add: print_def)

lemma date_now_frame [simp]:
  "tracking (snd (date_now s)) = tracking s" "sm_state (snd (date_now s)) = sm_state s"
  "state_file (snd (date_now s)) = state_file s" "hooks (snd (date_now s)) = hooks s"
  "fired (snd (date_now s)) = fired s" "world (snd (date_now s)) = world s"
  "heap (snd (date_now s)) = heap s" "stdout (snd (date_now s)) = stdout s"
  "save_err (snd (date_now s)) = save_err s" "saves (snd (date_now s)) = saves s"
  by (simp_all add: date_now_def)

lemma forEach_frame [simp]:
  "tracking (forEach cbs h t d s) = tracking s"
  "sm_state (forEach cbs h t d s) = sm_state s"
  "state_file (forEach cbs h t d s) = state_file s"
  "hooks (forEach cbs h t d s) = hooks s"
  "fired (forEach cbs h t d s) = fired s"
  "heap (forEach cbs h t d s) = heap s"
  "save_err (forEach cbs h t d s) = save_err s"
  "saves (forEach cbs h t d s) = saves s"
  by (induction cbs arbitrary: s; simp add: print_def split: prod.splits option.splits)+

lemma triggerHook_frame [simp]:
  "tracking (triggerHook h t d s) = tracking s"
  "sm_state (triggerHook h t d s) = sm_state s"
  "state_file (triggerHook h t d s) = state_file s"
  "hooks (triggerHook h t d s) = hooks s"
  "heap (triggerHook h t d s) = heap s"
  "save_err (triggerHook h t d s) = save_err s"
  "saves (triggerHook h t d s) = saves s"
  by (simp_all add: triggerHook_def split: option.splits)

lemma triggerHook_fired:
  "fired (triggerHook h t d s) = fired s @ (if hooks s h = None then [] else [(h, t, d)])"
  by (simp add: triggerHook_def split: option.splits)

lemma log_frame [simp]:
  "tracking (log t lv m meta s) = tracking s"
  "sm_state (log t lv m meta s) = sm_state s"
  "state_file (log t lv m meta s) = state_file s"
  "hooks (log t lv m meta s) = hooks s"
  "fired (log t lv m meta s) = fired s"
  "world (log t lv m meta s) = world s"
  "save_err (log t lv m meta s) = save_err s"
  "saves (log t lv m meta s) = saves s"
  by (simp_all add: log_def split_beta split: option.splits)

lemma saveState_frame [simp]:
  "tracking (saveState s) = tracking s" "sm_state (saveState s) = sm_state s"
  "hooks (saveState s) = hooks s" "fired (saveState s) = fired s"
  "world (saveState s) = world s"
  by (simp_all add: saveState_def Let_def split: option.splits)

lemma sm_set_frame [simp]:
  "tracking (sm_set t d s) = tracking s" "hooks (sm_set t d s) = hooks s"
  "fired (sm_set t d s) = fired s" "world (sm_set t d s) = world s"
  by (simp_all add: sm_set_def split_beta)

lemma sm_set_state:
  "sm_state (sm_set t d s) = (sm_state s)(t \<mapsto> merge (sm_state s t) d (clock s (ticks s)))"
  by (simp add: sm_set_def split_beta) (simp add: date_now_def)

lemma start_frame [simp]:
  "sm_state (start t d s) = sm_state s" "state_file (start t d s) = state_file s"
  "hooks (start t d s) = hooks s"
  by (simp_all add: start_def split_beta Let_def)

lemma start_tracked: "tracking (start t d s) t \<noteq> None"
  by (simp add: start_def split_beta Let_def)

lemma start_tracking_other: "t' \<noteq> t \<Longrightarrow> tracking (start t d s) t' = tracking s t'"
  by (simp add: start_def split_beta Let_def)

lemma progress_to_frame [simp]:
  "sm_state (progress_to t p m s) = sm_state s"
  "state_file (progress_to t p m s) = state_file s"
  "hooks (progress_to t p m s) = hooks s"
  by (simp_all add: progress_to_def split: option.splits)

lemma retry_frame [simp]:
  "sm_state (retry t a e s) = sm_state s"
  "state_file (retry t a e s) = state_file s"
  "hooks (retry t a e s) = hooks s"
  by (simp_all add: retry_def split: option.splits)

lemma registerHook_frame [simp]:
  "tracking (registerHook ev cb s) = tracking s"
  "sm_state (registerHook ev cb s) = sm_state s"
  "state_file (registerHook ev cb s) = state_file s"
  "fired (registerHook ev cb s) = fired s"
  "world (registerHook ev cb s) = world s"
  by (simp_all add: registerHook_def split: option.splits)

lemma complete_hooks [simp]: "hooks (complete t r s) = hooks s"
  by (simp add: complete_def split_beta Let_def split: option.splits)

lemma fail_hooks [simp]: "hooks (fail t e s) = hooks s"
  by (simp add: fail_def split_beta Let_def split: option.splits)

lemma dom_progress_to [simp]: "dom (tracking (progress_to t p m s)) = dom (tracking s)"
  by (auto simp: progress_to_def split: option.splits if_splits)

lemma dom_retry [simp]: "dom (tracking (retry t a e s)) = dom (tracking s)"
  by (auto simp: retry_def split: option.splits if_splits)

lemma dom_complete [simp]: "dom (tracking (complete t r s)) = dom (tracking s)"
  by (auto simp: complete_def split_beta Let_def split: option.splits if_splits)

lemma dom_fail [simp]: "dom (tracking (fail t e s)) = dom (tracking s)"
  by (auto simp: fail_def split_beta Let_def split: option.splits if_splits)





lemma registerHook_unknown: "hooks s e = None \<Longrightarrow> registerHook e cb s = s"
  by (simp add: registerHook_def)



subsection \<open>Persisted snapshots\<close>

lemma status_merge [simp]: "status (merge old d t) = status d"
  by (simp add: merge_def)

lemma status_stringify [simp]: "status (stringify h e) = status e"
  by (simp add: stringify_def)

lemma keeps_terminal_same: "sm_state s' = sm_state s \<Longrightarrow> keeps_terminal s s'"
  by (simp add: keeps_terminal_def)

lemma keeps_terminal_trans:
  "keeps_terminal s s' \<Longrightarrow> keeps_terminal s' s'' \<Longrightarrow> keeps_terminal s s''"
  unfolding keeps_terminal_def by blast

lemma keeps_terminal_update:
  "sm_state s' = (sm_state s)(t \<mapsto> e) \<Longrightarrow> terminal (status e) \<Longrightarrow> keeps_terminal s s'"
  by (simp add: keeps_terminal_def)

lemma persisted_ok_frame:
  "persisted_ok s \<Longrightarrow> sm_state s' = sm_state s \<Longrightarrow> state_file s' = state_file s \<Longrightarrow>
   persisted_ok s'"
  by (simp add: persisted_ok_def)

lemma ran_update_cases: "e \<in> ran (m(k \<mapsto> v)) \<Longrightarrow> e = v \<or> e \<in> ran m"
  by (auto simp: ran_def split: if_splits)

lemma state_file_saveState:
  "state_file (saveState s) =
     (case save_err s (saves s) of
        None \<Rightarrow> Some (\<lambda>k. map_option (stringify (heap s)) (sm_state s k))
      | Some msg \<Rightarrow> state_file s)"
  by (simp add: saveState_def Let_def split: option.splits)

lemma persisted_ok_saveState:
  assumes "\<forall>e \<in> ran (sm_state s). terminal (status e)"
      and "\<forall>f. state_file s = Some f \<longrightarrow> (\<forall>e \<in> ran f. terminal (status e))"
  shows "persisted_ok (saveState s)"
proof -
  have "terminal (status e)"
    if "e \<in> ran (\<lambda>k. map_option (stringify (heap s)) (sm_state s k))" for e
  proof -
    from that obtain k e0 where "sm_state s k = Some e0" "e = stringify (heap s) e0"
      by (auto simp: ran_def)
    then show ?thesis using assms(1) by (auto simp: ran_def)
  qed
  then show ?thesis
    using assms by (auto simp: persisted_ok_def state_file_saveState split: option.splits)
qed

lemma persisted_ok_sm_set:
  assumes "persisted_ok s" and "terminal (status d)"
  shows "persisted_ok (sm_set t d s)"
proof -
  let ?z = "(snd (date_now s))\<lparr>sm_state :=
              (sm_state (snd (date_now s)))
                (t \<mapsto> merge (sm_state (snd (date_now s)) t) d (fst (date_now s)))\<rparr>"
  have a: "\<forall>e \<in> ran (sm_state ?z). terminal (status e)"
    using assms by (auto simp: persisted_ok_def dest!: ran_update_cases)
  have b: "\<forall>f. state_file ?z = Some f \<longrightarrow> (\<forall>e \<in> ran f. terminal (status e))"
    using assms(1) by (simp add: persisted_ok_def)
  have "sm_set t d s = saveState ?z"
    by (simp add: sm_set_def split_beta)
  then show ?thesis using persisted_ok_saveState [OF a b] by simp
qed

lemma complete_other: "t' \<noteq> t \<Longrightarrow> sm_state (complete t r s) t' = sm_state s t'"
  by (simp add: complete_def split_beta Let_def sm_set_state split: option.splits)

lemma complete_persists:
  "tracking s t = Some tr \<Longrightarrow> map_option status (sm_state (complete t r s) t) = Some Completed"
  by (simp add: complete_def split_beta Let_def sm_set_state)

lemma fail_other: "t' \<noteq> t \<Longrightarrow> sm_state (fail t err s) t' = sm_state s t'"
  by (simp add: fail_def split_beta Let_def sm_set_state split: option.splits)

lemma fail_persists:
  "tracking s t = Some tr \<Longrightarrow> map_option status (sm_state (fail t err s) t) = Some Failed"
  by (simp add: fail_def split_beta Let_def sm_set_state)

lemma keeps_terminal_complete: "keeps_terminal s (complete t r s)"
proof (cases "tracking s t")
  case None
  then show ?thesis by (simp add: complete_def keeps_terminal_same)
next
  case (Some tr)
  show ?thesis
    unfolding keeps_terminal_def
  proof (intro allI impI)
    fix tid e
    assume h: "sm_state s tid = Some e \<and> terminal (status e)"
    show "\<exists>e'. sm_state (complete t r s) tid = Some e' \<and> terminal (status e')"
    proof (cases "tid = t")
      case True
      then show ?thesis using complete_persists [OF Some, of r]
        by (auto simp: terminal_def)
    next
      case False
      then show ?thesis using h by (simp add: complete_other)
    qed
  qed
qed

lemma keeps_terminal_fail: "keeps_terminal s (fail t err s)"
proof (cases "tracking s t")
  case None
  then show ?thesis by (simp add: fail_def keeps_terminal_same)
next
  case (Some tr)
  show ?thesis
    unfolding keeps_terminal_def
  proof (intro allI impI)
    fix tid e
    assume h: "sm_state s tid = Some e \<and> terminal (status e)"
    show "\<exists>e'. sm_state (fail t err s) tid = Some e' \<and> terminal (status e')"
    proof (cases "tid = t")
      case True
      then show ?thesis using fail_persists [OF Some, of err]
        by (auto simp: terminal_def)
    next
      case False
      then show ?thesis using h by (simp add: fail_other)
    qed
  qed
qed

lemma persisted_ok_complete: "persisted_ok s \<Longrightarrow> persisted_ok (complete t r s)"
proof (cases "tracking s t")
  case None
  then show "persisted_ok s \<Longrightarrow> ?thesis" by (simp add: complete_def)
next
  case (Some tr)
  assume ok: "persisted_ok s"
  obtain d z where c: "complete t r s = sm_set t d z" and d: "status d = Completed"
    and z: "sm_state z = sm_state s" "state_file z = state_file s"
    using Some by (simp add: complete_def split_beta Let_def)
  have "persisted_ok z" using ok z by (rule persisted_ok_frame)
  then show ?thesis unfolding c using d by (intro persisted_ok_sm_set) (simp_all add: terminal_def)
qed

lemma persisted_ok_fail: "persisted_ok s \<Longrightarrow> persisted_ok (fail t err s)"
proof (cases "tracking s t")
  case None
  then show "persisted_ok s \<Longrightarrow> ?thesis" by (simp add: fail_def)
next
  case (Some tr)
  assume ok: "persisted_ok s"
  obtain d z where c: "fail t err s = sm_set t d z" and d: "status d = Failed"
    and z: "sm_state z = sm_state s" "state_file z = state_file s"
    using Some by (simp add: fail_def split_beta Let_def)
  have "persisted_ok z" using ok z by (rule persisted_ok_frame)
  then show ?thesis unfolding c using d by (intro persisted_ok_sm_set) (simp_all add: terminal_def)
qed

lemma run_steps_frame [simp]:
  "sm_state (snd (run_steps up t n i sts s)) = sm_state s"
  "state_file (snd (run_steps up t n i sts s)) = state_file s"
  "hooks (snd (run_steps up t n i sts s)) = hooks s"
  by (induction sts arbitrary: i s; simp add: Let_def split: option.splits prod.splits)+

lemma keeps_terminal_processJob: "keeps_terminal s (snd (processJob up jb s))"
proof -
  let ?s1 = "start (job_taskId jb) (job_payload jb)
               (print (''[Worker] Processing task: '' @ job_taskId jb) s)"
  let ?r = "run_steps up (job_taskId jb) (length (steps jb)) 0 (steps jb) ?s1"
  have a: "keeps_terminal s (snd ?r)" by (simp add: keeps_terminal_same)
  show ?thesis
  proof (cases "fst ?r")
    case None
    then have "snd (processJob up jb s)
                 = complete (job_taskId jb) (JObj [(''success'', JBool True)]) (snd ?r)"
      by (simp add: processJob_def Let_def split_beta)
    then show ?thesis using keeps_terminal_trans [OF a keeps_terminal_complete] by simp
  next
    case (Some err)
    then have "snd (processJob up jb s) = fail (job_taskId jb) err (snd ?r)"
      by (simp add: processJob_def Let_def split_beta)
    then show ?thesis using keeps_terminal_trans [OF a keeps_terminal_fail] by simp
  qed
qed

lemma persisted_ok_processJob:
  assumes "persisted_ok s"
  shows "persisted_ok (snd (processJob up jb s))"
proof -
  let ?s1 = "start (job_taskId jb) (job_payload jb)
               (print (''[Worker] Processing task: '' @ job_taskId jb) s)"
  let ?r = "run_steps up (job_taskId jb) (length (steps jb)) 0 (steps jb) ?s1"
  have a: "persisted_ok (snd ?r)" using assms by (rule persisted_ok_frame) simp_all
  show ?thesis
  proof (cases "fst ?r")
    case None
    then have "snd (processJob up jb s)
                 = complete (job_taskId jb) (JObj [(''success'', JBool True)]) (snd ?r)"
      by (simp add: processJob_def Let_def split_beta)
    then show ?thesis using persisted_ok_complete [OF a] by simp
  next
    case (Some err)
    then have "snd (processJob up jb s) = fail (job_taskId jb) err (snd ?r)"
      by (simp add: processJob_def Let_def split_beta)
    then show ?thesis using persisted_ok_fail [OF a] by simp
  qed
qed

lemma runJob_Suc:
  "runJob up (Suc k) jb s =
     (case fst (processJob up jb s) of
        None \<Rightarrow> print (''[Worker] Job completed: '' @ job_taskId jb) (snd (processJob up jb s))
      | Some err \<Rightarrow>
          runJob up k jb
            (print (''[Worker] Job failed: '' @ job_taskId jb @ '' - '' @ err)
               (snd (processJob up jb s))))"
  by (simp split: prod.splits option.splits)

lemma keeps_terminal_runJob: "keeps_terminal s (runJob up k jb s)"
proof (induction k arbitrary: s)
  case 0
  then show ?case by (simp add: keeps_terminal_same)
next
  case (Suc k)
  let ?p = "processJob up jb s"
  have a: "keeps_terminal s (snd ?p)" by (rule keeps_terminal_processJob)
  show ?case
  proof (cases "fst ?p")
    case None
    have "keeps_terminal (snd ?p) (print (''[Worker] Job completed: '' @ job_taskId jb) (snd ?p))"
      by (simp add: keeps_terminal_same)
    then show ?thesis using a None keeps_terminal_trans
      by (simp add: runJob_Suc del: runJob.simps) blast
  next
    case (Some err)
    let ?s1 = "print (''[Worker] Job failed: '' @ job_taskId jb @ '' - '' @ err) (snd ?p)"
    have "keeps_terminal (snd ?p) ?s1" by (simp add: keeps_terminal_same)
    moreover have "keeps_terminal ?s1 (runJob up k jb ?s1)" by (rule Suc.IH)
    ultimately have "keeps_terminal s (runJob up k jb ?s1)"
      using a keeps_terminal_trans by blast
    then show ?thesis using Some by (simp add: runJob_Suc del: runJob.simps)
  qed
qed

lemma persisted_ok_runJob: "persisted_ok s \<Longrightarrow> persisted_ok (runJob up k jb s)"
proof (induction k arbitrary: s)
  case 0
  then show ?case by simp
next
  case (Suc k)
  let ?p = "processJob up jb s"
  have a: "persisted_ok (snd ?p)" using Suc.prems by (rule persisted_ok_processJob)
  show ?case
  proof (cases "fst ?p")
    case None
    have "persisted_ok (print (''[Worker] Job completed: '' @ job_taskId jb) (snd ?p))"
      using a by (rule persisted_ok_frame) simp_all
    then show ?thesis using None
      by (simp add: runJob_Suc del: runJob.simps)
  next
    case (Some err)
    let ?s1 = "print (''[Worker] Job failed: '' @ job_taskId jb @ '' - '' @ err) (snd ?p)"
    have "persisted_ok ?s1" using a by (rule persisted_ok_frame) simp_all
    then have "persisted_ok (runJob up k jb ?s1)" by (rule Suc.IH)
    then show ?thesis using Some by (simp add: runJob_Suc del: runJob.simps)
  qed
qed

lemma keeps_terminal_apply_op: "keeps_terminal s (apply_op a s)"
  by (cases a)
     (simp_all add: keeps_terminal_same keeps_terminal_complete keeps_terminal_fail
        keeps_terminal_processJob keeps_terminal_runJob)

lemma persisted_ok_apply_op:
  assumes "persisted_ok s"
  shows "persisted_ok (apply_op a s)"
proof (cases a)
  case (Complete t r)
  then show ?thesis using assms by (simp add: persisted_ok_complete)
next
  case (Fail t e)
  then show ?thesis using assms by (simp add: persisted_ok_fail)
next
  case (Process up jb)
  then show ?thesis using assms by (simp add: persisted_ok_processJob)
next
  case (Job up k jb)
  then show ?thesis using assms by (simp add: persisted_ok_runJob)
qed (simp_all, (rule persisted_ok_frame [OF assms], simp, simp)+)

lemma keeps_terminal_exec: "keeps_terminal s (exec ops s)"
proof (induction ops arbitrary: s)
  case Nil
  then show ?case by (simp add: keeps_terminal_same)
next
  case (Cons a ops)
  have "keeps_terminal s (apply_op a s)" by (rule keeps_terminal_apply_op)
  moreover have "keeps_terminal (apply_op a s) (exec ops (apply_op a s))" by (rule Cons.IH)
  ultimately show ?case using keeps_terminal_trans by simp blast
qed

lemma persisted_ok_exec: "persisted_ok s \<Longrightarrow> persisted_ok (exec ops s)"
  by (induction ops arbitrary: s) (simp_all add: persisted_ok_apply_op)

subsection \<open>The dispatch history\<close>

lemma fired_start:
  "fired (start t d s) =
     fired s @ (if hooks s ''onTaskStart'' = None then [] else [(''onTaskStart'', t, d)])"
  by (simp add: start_def split_beta Let_def triggerHook_fired)

lemma fired_progress_to:
  "fired (progress_to t p m s) =
     fired s @ (if tracking s t = None \<or> hooks s ''onTaskProgress'' = None then []
                else [(''onTaskProgress'', t,
                       JObj [(''percent'', JNum (int p)), (''message'', JStr m)])])"
  by (simp add: progress_to_def triggerHook_fired split: option.splits)

lemma fired_complete:
  "fired (complete t r s) =
     fired s @ (if tracking s t = None \<or> hooks s ''onTaskComplete'' = None then []
                else [(''onTaskComplete'', t, r)])"
  by (simp add: complete_def split_beta Let_def triggerHook_fired split: option.splits)

lemma fired_fail:
  "fired (fail t err s) =
     fired s @ (if tracking s t = None \<or> hooks s ''onTaskFail'' = None then []
                else [(''onTaskFail'', t, JObj [(''error'', JStr err)])])"
  by (simp add: fail_def split_beta Let_def triggerHook_fired split: option.splits)


lemma tracked_progress_to:
  "tracking (progress_to t p m s) t' = None \<longleftrightarrow> tracking s t' = None"
proof -
  have "dom (tracking (progress_to t p m s)) = dom (tracking s)" by (rule dom_progress_to)
  then show ?thesis by (metis domIff)
qed

lemma progress_values_Nil [simp]: "progress_values [] = []"
  by (simp add: progress_values_def)

lemma progress_values_append [simp]:
  "progress_values (xs @ ys) = progress_values xs @ progress_values ys"
  by (simp add: progress_values_def)

lemma progress_values_progress [simp]:
  "progress_values [(''onTaskProgress'', t, JObj [(''percent'', JNum p), (''message'', m)])] = [p]"
  by (simp add: progress_values_def field_def)

lemma progress_values_other:
  "h \<noteq> ''onTaskProgress'' \<Longrightarrow> progress_values [(h, t, d)] = []"
  by (simp add: progress_values_def)

lemma run_steps_fired:
  "\<exists>k evs. k \<le> length sts
     \<and> fired (snd (run_steps up t n i sts s)) = fired s @ evs
     \<and> filter (\<lambda>e. fst e \<noteq> ''onTaskProgress'') evs = []
     \<and> progress_values evs =
         (if tracking s t = None \<or> hooks s ''onTaskProgress'' = None then []
          else map (\<lambda>j. int (percent up j n)) [i..<i + k])
     \<and> (fst (run_steps up t n i sts s) = None \<longrightarrow> k = length sts)"
proof (induction sts arbitrary: i s)
  case Nil
  show ?case by (rule exI [of _ 0], rule exI [of _ "[]"]) simp
next
  case (Cons st sts)
  let ?m = "''Step '' @ show_nat (i + 1) @ '': '' @ step_name st"
  let ?s1 = "progress_to t (percent up i n) ?m s"
  let ?ev = "if tracking s t = None \<or> hooks s ''onTaskProgress'' = None then []
             else [(''onTaskProgress'', t,
                    JObj [(''percent'', JNum (int (percent up i n))), (''message'', JStr ?m)])]"
  have f1: "fired ?s1 = fired s @ ?ev" by (rule fired_progress_to)
  have p1: "progress_values ?ev =
              (if tracking s t = None \<or> hooks s ''onTaskProgress'' = None then []
               else [int (percent up i n)])"
    by simp
  have o1: "filter (\<lambda>e. fst e \<noteq> ''onTaskProgress'') ?ev = []" by simp
  have rec: "\<exists>k evs. k \<le> length (st # sts)
     \<and> fired (snd (run_steps up t n (Suc i) sts z)) = fired s @ evs
     \<and> filter (\<lambda>e. fst e \<noteq> ''onTaskProgress'') evs = []
     \<and> progress_values evs =
         (if tracking s t = None \<or> hooks s ''onTaskProgress'' = None then []
          else map (\<lambda>j. int (percent up j n)) [i..<i + k])
     \<and> (fst (run_steps up t n (Suc i) sts z) = None \<longrightarrow> k = length (st # sts))"
    if z: "fired z = fired ?s1" "tracking z = tracking ?s1" "hooks z = hooks ?s1" for z
  proof -
    from Cons.IH [of "Suc i" z] obtain k where
      "\<exists>evs. k \<le> length sts
         \<and> fired (snd (run_steps up t n (Suc i) sts z)) = fired z @ evs
         \<and> filter (\<lambda>e. fst e \<noteq> ''onTaskProgress'') evs = []
         \<and> progress_values evs =
             (if tracking z t = None \<or> hooks z ''onTaskProgress'' = None then []
              else map (\<lambda>j. int (percent up j n)) [Suc i..<Suc i + k])
         \<and> (fst (run_steps up t n (Suc i) sts z) = None \<longrightarrow> k = length sts)" ..
    then obtain evs where
      all: "k \<le> length sts
         \<and> fired (snd (run_steps up t n (Suc i) sts z)) = fired z @ evs
         \<and> filter (\<lambda>e. fst e \<noteq> ''onTaskProgress'') evs = []
         \<and> progress_values evs =
             (if tracking z t = None \<or> hooks z ''onTaskProgress'' = None then []
              else map (\<lambda>j. int (percent up j n)) [Suc i..<Suc i + k])
         \<and> (fst (run_steps up t n (Suc i) sts z) = None \<longrightarrow> k = length sts)" ..
    have k: "k \<le> length sts"
      and f: "fired (snd (run_steps up t n (Suc i) sts z)) = fired z @ evs"
      and o: "filter (\<lambda>e. fst e \<noteq> ''onTaskProgress'') evs = []"
      and p: "progress_values evs =
                (if tracking z t = None \<or> hooks z ''onTaskProgress'' = None then []
                 else map (\<lambda>j. int (percent up j n)) [Suc i..<Suc i + k])"
      and r: "fst (run_steps up t n (Suc i) sts z) = None \<longrightarrow> k = length sts"
      using all by blast+
    have c: "(tracking z t = None \<or> hooks z ''onTaskProgress'' = None)
               = (tracking s t = None \<or> hooks s ''onTaskProgress'' = None)"
      using z by (simp add: tracked_progress_to)
    have "progress_values (?ev @ evs) =
            (if tracking s t = None \<or> hooks s ''onTaskProgress'' = None then []
             else map (\<lambda>j. int (percent up j n)) [i..<i + Suc k])"
    proof -
      have u: "[i..<i + Suc k] = i # [Suc i..<Suc i + k]"
        by (simp add: upt_conv_Cons del: upt_Suc)
      show ?thesis using p c unfolding u by (simp del: upt_Suc)
    qed
    then show ?thesis
      using k f o r z f1 o1
      by (intro exI [of _ "Suc k"] exI [of _ "?ev @ evs"]) simp
  qed
  show ?case
  proof (cases "execute st")
    case None
    then show ?thesis using rec [of ?s1] by (simp add: Let_def)
  next
    case (Some f)
    show ?thesis
    proof (cases "snd (f (world ?s1))")
      case None
      have "\<exists>k evs. k \<le> length (st # sts)
         \<and> fired (snd (run_steps up t n (Suc i) sts (?s1\<lparr>world := fst (f (world ?s1))\<rparr>)))
             = fired s @ evs
         \<and> filter (\<lambda>e. fst e \<noteq> ''onTaskProgress'') evs = []
         \<and> progress_values evs =
             (if tracking s t = None \<or> hooks s ''onTaskProgress'' = None then []
              else map (\<lambda>j. int (percent up j n)) [i..<i + k])
         \<and> (fst (run_steps up t n (Suc i) sts (?s1\<lparr>world := fst (f (world ?s1))\<rparr>)) = None
              \<longrightarrow> k = length (st # sts))"
        by (rule rec) simp_all
      then show ?thesis using Some None by (simp add: Let_def split_beta)
    next
      case (Some err)
      have "run_steps up t n i (st # sts) s = (Some err, ?s1\<lparr>world := fst (f (world ?s1))\<rparr>)"
        using \<open>execute st = Some f\<close> Some by (simp add: Let_def split_beta)
      then show ?thesis
        using f1 p1 o1
        by (intro exI [of _ "Suc 0"] exI [of _ ?ev]) simp
    qed
  qed
qed

subsection \<open>Rounding\<close>

lemma percent_le_round: "percent up i n \<le> (200 * i + n) div (2 * n)"
proof -
  have "(100 * i) div n = (2 * (100 * i)) div (2 * n)" by simp
  also have "\<dots> \<le> (200 * i + n) div (2 * n)" by (rule div_le_mono) simp
  finally show ?thesis by (simp add: percent_def)
qed

lemma percent_mono:
  assumes "0 < n" and "i \<le> j"
  shows "percent up i n \<le> percent up j n"
proof (cases "i = j")
  case True
  then show ?thesis by simp
next
  case False
  then have lt: "i < j" using assms by simp
  show ?thesis
  proof (cases "(200 * j) mod (2 * n) = n \<and> \<not> up j n")
    case False
    then have "percent up j n = (200 * j + n) div (2 * n)" by (auto simp: percent_def)
    moreover have "(200 * i + n) div (2 * n) \<le> (200 * j + n) div (2 * n)"
      using assms by (intro div_le_mono) simp
    ultimately show ?thesis using percent_le_round [of up i n] by linarith
  next
    case True
    define q where "q = (200 * j) div (2 * n)"
    have pj: "percent up j n = q"
    proof -
      have "(100 * j) div n = (2 * (100 * j)) div (2 * n)" by simp
      then show ?thesis using True by (simp add: percent_def q_def)
    qed
    have "200 * j = q * (2 * n) + (200 * j) mod (2 * n)"
      unfolding q_def by (rule div_mult_mod_eq [symmetric])
    then have e: "200 * j = q * (2 * n) + n" using True by simp
    have "200 * i + 200 \<le> 200 * j" using lt by simp
    then have "200 * i + n < Suc q * (2 * n)" using e assms(1) by simp
    then have "(200 * i + n) div (2 * n) < Suc q" by (rule less_mult_imp_div_less)
    then show ?thesis using percent_le_round [of up i n] pj by linarith
  qed
qed

lemma percent_lt_100:
  assumes "n < 200" and "i < n"
  shows "percent up i n < 100"
proof -
  have "200 * i + 200 \<le> 200 * n" using assms(2) by simp
  then have "200 * i + n < 100 * (2 * n)" using assms(1) by simp
  then have "(200 * i + n) div (2 * n) < 100" by (rule less_mult_imp_div_less)
  then show ?thesis using percent_le_round [of up i n] by linarith
qed

lemma percent_examples:
  "percent up 0 4 = 0" "percent up 1 4 = 25" "percent up 2 4 = 50" "percent up 3 4 = 75"
  "percent up 200 201 = 100"
  by (simp_all add: percent_def)

subsection \<open>One run of the Worker callback\<close>

lemma run_steps_tracked:
  "tracking (snd (run_steps up t n i sts s)) t' = None \<longleftrightarrow> tracking s t' = None"
  by (induction sts arbitrary: i s)
     (simp_all add: Let_def split_beta tracked_progress_to split: option.splits)

lemma run_steps_plain:
  "\<forall>st \<in> set sts. execute st = None \<Longrightarrow> fst (run_steps up t n i sts s) = None"
  by (induction sts arbitrary: i s) (simp_all add: Let_def)


lemma processJob_unfold:
  "processJob up jb s =
     (case fst (run_steps up (job_taskId jb) (length (steps jb)) 0 (steps jb)
                  (start (job_taskId jb) (job_payload jb)
                     (print (''[Worker] Processing task: '' @ job_taskId jb) s))) of
        None \<Rightarrow>
          (None, complete (job_taskId jb) (JObj [(''success'', JBool True)])
                   (snd (run_steps up (job_taskId jb) (length (steps jb)) 0 (steps jb)
                           (start (job_taskId jb) (job_payload jb)
                              (print (''[Worker] Processing task: '' @ job_taskId jb) s)))))
      | Some err \<Rightarrow>
          (Some err, fail (job_taskId jb) err
                   (snd (run_steps up (job_taskId jb) (length (steps jb)) 0 (steps jb)
                           (start (job_taskId jb) (job_payload jb)
                              (print (''[Worker] Processing task: '' @ job_taskId jb) s))))))"
  by (simp add: processJob_def Let_def split: prod.splits option.splits)

lemma processJob_hooks [simp]: "hooks (snd (processJob up jb s)) = hooks s"
  by (simp add: processJob_unfold split: option.splits)

lemma processJob_fired:
  "\<exists>k evs. k \<le> length (steps jb)
     \<and> fired (snd (processJob up jb s)) =
         fired s
         @ (if hooks s ''onTaskStart'' = None then []
            else [(''onTaskStart'', job_taskId jb, job_payload jb)])
         @ evs
         @ (case fst (processJob up jb s) of
              None \<Rightarrow>
                (if hooks s ''onTaskComplete'' = None then []
                 else [(''onTaskComplete'', job_taskId jb, JObj [(''success'', JBool True)])])
            | Some err \<Rightarrow>
                (if hooks s ''onTaskFail'' = None then []
                 else [(''onTaskFail'', job_taskId jb, JObj [(''error'', JStr err)])]))
     \<and> filter (\<lambda>e. fst e \<noteq> ''onTaskProgress'') evs = []
     \<and> progress_values evs =
         (if hooks s ''onTaskProgress'' = None then []
          else map (\<lambda>j. int (percent up j (length (steps jb)))) [0..<k])
     \<and> (fst (processJob up jb s) = None \<longrightarrow> k = length (steps jb))"
proof -
  define t where "t = job_taskId jb"
  define s1 where "s1 = start t (job_payload jb) (print (''[Worker] Processing task: '' @ t) s)"
  define r where "r = run_steps up t (length (steps jb)) 0 (steps jb) s1"
  have pj: "processJob up jb s =
              (case fst r of
                 None \<Rightarrow> (None, complete t (JObj [(''success'', JBool True)]) (snd r))
               | Some err \<Rightarrow> (Some err, fail t err (snd r)))"
    unfolding r_def s1_def t_def by (rule processJob_unfold)
  from run_steps_fired [of "steps jb" up t "length (steps jb)" 0 s1] obtain k where
    "\<exists>evs. k \<le> length (steps jb)
       \<and> fired (snd r) = fired s1 @ evs
       \<and> filter (\<lambda>e. fst e \<noteq> ''onTaskProgress'') evs = []
       \<and> progress_values evs =
           (if tracking s1 t = None \<or> hooks s1 ''onTaskProgress'' = None then []
            else map (\<lambda>j. int (percent up j (length (steps jb)))) [0..<0 + k])
       \<and> (fst r = None \<longrightarrow> k = length (steps jb))"
    unfolding r_def ..
  then obtain evs where
    all: "k \<le> length (steps jb)
       \<and> fired (snd r) = fired s1 @ evs
       \<and> filter (\<lambda>e. fst e \<noteq> ''onTaskProgress'') evs = []
       \<and> progress_values evs =
           (if tracking s1 t = None \<or> hooks s1 ''onTaskProgress'' = None then []
            else map (\<lambda>j. int (percent up j (length (steps jb)))) [0..<0 + k])
       \<and> (fst r = None \<longrightarrow> k = length (steps jb))" ..
  have k: "k \<le> length (steps jb)"
    and f: "fired (snd r) = fired s1 @ evs"
    and o: "filter (\<lambda>e. fst e \<noteq> ''onTaskProgress'') evs = []"
    and p: "progress_values evs =
           (if tracking s1 t = None \<or> hooks s1 ''onTaskProgress'' = None then []
            else map (\<lambda>j. int (percent up j (length (steps jb)))) [0..<0 + k])"
    and rr: "fst r = None \<longrightarrow> k = length (steps jb)"
    using all by blast+
  have tr: "tracking s1 t \<noteq> None" unfolding s1_def by (rule start_tracked)
  have tr2: "tracking (snd r) t \<noteq> None" unfolding r_def using tr by (simp add: run_steps_tracked)
  have h1: "hooks s1 = hooks s" unfolding s1_def by simp
  have h2: "hooks (snd r) = hooks s" unfolding r_def using h1 by simp
  have p': "progress_values evs =
           (if hooks s ''onTaskProgress'' = None then []
            else map (\<lambda>j. int (percent up j (length (steps jb)))) [0..<k])"
    using p h1 by (simp add: tr)
  have fs: "fired s1 = fired s @ (if hooks s ''onTaskStart'' = None then []
            else [(''onTaskStart'', t, job_payload jb)])"
    unfolding s1_def by (simp add: fired_start)
  have res: "fst (processJob up jb s) = fst r"
    by (simp add: pj split: option.splits)
  have "fired (snd (processJob up jb s)) =
         fired s
         @ (if hooks s ''onTaskStart'' = None then []
            else [(''onTaskStart'', t, job_payload jb)])
         @ evs
         @ (case fst r of
              None \<Rightarrow>
                (if hooks s ''onTaskComplete'' = None then []
                 else [(''onTaskComplete'', t, JObj [(''success'', JBool True)])])
            | Some err \<Rightarrow>
                (if hooks s ''onTaskFail'' = None then []
                 else [(''onTaskFail'', t, JObj [(''error'', JStr err)])]))"
    by (cases "fst r") (simp_all add: pj fired_complete fired_fail tr2 h2 f fs)
  then show ?thesis
    using k o p' rr unfolding res t_def
    by (intro exI [of _ k] exI [of _ evs]) simp
qed

lemma processJob_plain:
  "\<forall>st \<in> set (steps jb). execute st = None \<Longrightarrow> fst (processJob up jb s) = None"
  by (simp add: processJob_unfold run_steps_plain)


lemma reported_form:
  "\<exists>k \<le> length (steps jb).
     reported up jb s =
       (if hooks s ''onTaskProgress'' = None then []
        else map (\<lambda>j. int (percent up j (length (steps jb)))) [0..<k])
     \<and> (fst (processJob up jb s) = None \<longrightarrow> k = length (steps jb))"
proof -
  from processJob_fired [of jb up s] obtain k where
    "\<exists>evs. k \<le> length (steps jb)
     \<and> fired (snd (processJob up jb s)) =
         fired s
         @ (if hooks s ''onTaskStart'' = None then []
            else [(''onTaskStart'', job_taskId jb, job_payload jb)])
         @ evs
         @ (case fst (processJob up jb s) of
              None \<Rightarrow>
                (if hooks s ''onTaskComplete'' = None then []
                 else [(''onTaskComplete'', job_taskId jb, JObj [(''success'', JBool True)])])
            | Some err \<Rightarrow>
                (if hooks s ''onTaskFail'' = None then []
                 else [(''onTaskFail'', job_taskId jb, JObj [(''error'', JStr err)])]))
     \<and> filter (\<lambda>e. fst e \<noteq> ''onTaskProgress'') evs = []
     \<and> progress_values evs =
         (if hooks s ''onTaskProgress'' = None then []
          else map (\<lambda>j. int (percent up j (length (steps jb)))) [0..<k])
     \<and> (fst (processJob up jb s) = None \<longrightarrow> k = length (steps jb))" ..
  then obtain evs where
    all: "k \<le> length (steps jb)
     \<and> fired (snd (processJob up jb s)) =
         fired s
         @ (if hooks s ''onTaskStart'' = None then []
            else [(''onTaskStart'', job_taskId jb, job_payload jb)])
         @ evs
         @ (case fst (processJob up jb s) of
              None \<Rightarrow>
                (if hooks s ''onTaskComplete'' = None then []
                 else [(''onTaskComplete'', job_taskId jb, JObj [(''success'', JBool True)])])
            | Some err \<Rightarrow>
                (if hooks s ''onTaskFail'' = None then []
                 else [(''onTaskFail'', job_taskId jb, JObj [(''error'', JStr err)])]))
     \<and> filter (\<lambda>e. fst e \<noteq> ''onTaskProgress'') evs = []
     \<and> progress_values evs =
         (if hooks s ''onTaskProgress'' = None then []
          else map (\<lambda>j. int (percent up j (length (steps jb)))) [0..<k])
     \<and> (fst (processJob up jb s) = None \<longrightarrow> k = length (steps jb))" ..
  then have "reported up jb s = progress_values evs"
    by (simp add: reported_def progress_values_other split: option.splits)
  then show ?thesis using all by (intro exI [of _ k]) simp
qed

lemma sorted_percents: "sorted (map (\<lambda>j. int (percent up j n)) [0..<k])" if "k \<le> n"
proof (cases "n = 0")
  case True
  then show ?thesis using that by simp
next
  case False
  have "sorted_wrt (\<lambda>x y. int (percent up x n) \<le> int (percent up y n)) [0..<k]"
    by (rule sorted_wrt_mono_rel [OF _ sorted_wrt_upt]) (use False in \<open>simp add: percent_mono\<close>)
  then show ?thesis by (simp only: sorted_map)
qed

text \<open>
  C4 as stated, at a task of 201 steps none of which throws: the 201 progress values are
  reported one before each step, and the last of them, reported before the final step has
  run, is already 100.
\<close>

theorem progress_hundred_before_last_step_counterexample:
  "length (reported half_up (steps_job 201) boot0) = 201
   \<and> reported half_up (steps_job 201) boot0 ! 200 = 100"
proof -
  have h: "hooks boot0 ''onTaskProgress'' \<noteq> None"
    by (simp add: boot0_def boot_def registerHook_def blank_def no_hooks_def)
  have n: "fst (processJob half_up (steps_job 201) boot0) = None"
    by (rule processJob_plain) (simp add: steps_job_def plain_step_def)
  have l: "length (steps (steps_job 201)) = 201" by (simp add: steps_job_def)
  from reported_form [of "steps_job 201" half_up boot0] obtain k where
    k: "k \<le> length (steps (steps_job 201))
        \<and> reported half_up (steps_job 201) boot0 =
            (if hooks boot0 ''onTaskProgress'' = None then []
             else map (\<lambda>j. int (percent half_up j (length (steps (steps_job 201))))) [0..<k])
        \<and> (fst (processJob half_up (steps_job 201) boot0) = None
             \<longrightarrow> k = length (steps (steps_job 201)))" ..
  then have "k = 201" using n l by simp
  then have r: "reported half_up (steps_job 201) boot0
             = map (\<lambda>j. int (percent half_up j 201)) [0..<201]"
    using k h l by (simp del: upt_rec_numeral)
  have "(200::nat) < 201" by simp
  then have "map (\<lambda>j. int (percent half_up j 201)) [0..<201] ! 200
               = int (percent half_up (0 + 200) 201)"
    by (simp only: nth_map_upt minus_nat.diff_0)
  then show ?thesis unfolding r by (simp add: percent_examples del: upt_rec_numeral)
qed

text \<open>
  C4, amended. The progress values one run of the Worker callback reports are
  non-decreasing. They are \<open>round(100 i / N)\<close> for the steps \<open>i = 0, 1, ...\<close> in turn,
  reported before step \<open>i + 1\<close> runs; for a task of fewer than 200 steps every one of them
  is below 100 (a 4-step task that completes reports 0, 25, 50, 75). The value 100 is never
  reported on completion.
\<close>

theorem progress_reports_are_monotone:
  "sorted (reported up jb s)
   \<and> (length (steps jb) < 200 \<longrightarrow> (\<forall>p \<in> set (reported up jb s). 0 \<le> p \<and> p < 100))
   \<and> (fst (processJob up jb s) = None \<and> hooks s ''onTaskProgress'' \<noteq> None \<longrightarrow>
        reported up jb s
          = map (\<lambda>j. int (percent up j (length (steps jb)))) [0..<length (steps jb)])"
proof -
  from reported_form [of jb up s] obtain k where
    all: "k \<le> length (steps jb)
       \<and> reported up jb s =
           (if hooks s ''onTaskProgress'' = None then []
            else map (\<lambda>j. int (percent up j (length (steps jb)))) [0..<k])
       \<and> (fst (processJob up jb s) = None \<longrightarrow> k = length (steps jb))" ..
  have k: "k \<le> length (steps jb)"
    and r: "reported up jb s =
       (if hooks s ''onTaskProgress'' = None then []
        else map (\<lambda>j. int (percent up j (length (steps jb)))) [0..<k])"
    and e: "fst (processJob up jb s) = None \<longrightarrow> k = length (steps jb)"
    using all by blast+
  have a: "sorted (reported up jb s)"
    unfolding r using sorted_percents [OF k] by simp
  have b: "\<forall>p \<in> set (reported up jb s). 0 \<le> p \<and> p < 100" if "length (steps jb) < 200"
  proof
    fix p assume "p \<in> set (reported up jb s)"
    then obtain j where "j < k" "p = int (percent up j (length (steps jb)))"
      unfolding r by (auto split: if_splits)
    then show "0 \<le> p \<and> p < 100"
      using percent_lt_100 [OF that, of j up] k by simp
  qed
  have c: "reported up jb s
          = map (\<lambda>j. int (percent up j (length (steps jb)))) [0..<length (steps jb)]"
    if "fst (processJob up jb s) = None \<and> hooks s ''onTaskProgress'' \<noteq> None"
    using that e r by auto
  show ?thesis using a b c by blast
qed

text \<open>C4 amended, at a 4-step task that completes.\<close>

theorem progress_reports_are_monotone_witness:
  "length (steps (steps_job 4)) < 200
   \<and> fst (processJob half_up (steps_job 4) boot0) = None
   \<and> hooks boot0 ''onTaskProgress'' \<noteq> None
   \<and> reported half_up (steps_job 4) boot0 = [0, 25, 50, 75]
   \<and> sorted (reported half_up (steps_job 4) boot0)"
proof -
  have h: "hooks boot0 ''onTaskProgress'' \<noteq> None"
    by (simp add: boot0_def boot_def registerHook_def blank_def no_hooks_def)
  have n: "fst (processJob half_up (steps_job 4) boot0) = None"
    by (rule processJob_plain) (simp add: steps_job_def plain_step_def)
  have l: "length (steps (steps_job 4)) = 4" by (simp add: steps_job_def)
  have u: "[0..<4] = [0, 1, 2, Suc 2]" by (simp add: upt_conv_Cons)
  have "reported half_up (steps_job 4) boot0
          = map (\<lambda>j. int (percent half_up j (length (steps (steps_job 4)))))
              [0..<length (steps (steps_job 4))]"
    using progress_reports_are_monotone [of half_up "steps_job 4" boot0] n h by blast
  then have r: "reported half_up (steps_job 4) boot0 = [0, 25, 50, 75]"
    unfolding l u by (simp add: percent_examples) (simp add: percent_def)
  show ?thesis using h n l r by simp
qed

subsection \<open>Retries\<close>


lemma fired_count_print [simp]: "fired_count h (print l s) = fired_count h s"
  by (simp add: fired_count_def)


lemma runJob_hooks [simp]: "hooks (runJob up k jb s) = hooks s"
  by (induction k arbitrary: s) (simp_all add: runJob_Suc split: option.splits del: runJob.simps(2))




lemma processJob_status:
  "map_option status (sm_state (snd (processJob up jb s)) (job_taskId jb))
     = Some (case fst (processJob up jb s) of None \<Rightarrow> Completed | Some err \<Rightarrow> Failed)"
proof -
  define t where "t = job_taskId jb"
  define s1 where "s1 = start t (job_payload jb) (print (''[Worker] Processing task: '' @ t) s)"
  define r where "r = run_steps up t (length (steps jb)) 0 (steps jb) s1"
  have pj: "processJob up jb s =
              (case fst r of
                 None \<Rightarrow> (None, complete t (JObj [(''success'', JBool True)]) (snd r))
               | Some err \<Rightarrow> (Some err, fail t err (snd r)))"
    unfolding r_def s1_def t_def by (rule processJob_unfold)
  have "tracking s1 t \<noteq> None" unfolding s1_def by (rule start_tracked)
  then have "tracking (snd r) t \<noteq> None" unfolding r_def by (simp add: run_steps_tracked)
  then obtain tr where tr: "tracking (snd r) t = Some tr" by blast
  show ?thesis
    unfolding t_def [symmetric] pj
    using complete_persists [OF tr] fail_persists [OF tr]
    by (cases "fst r") simp_all
qed






lemma start_status: "map_option status (tracking (start t d s) t) = Some Running"
  by (simp add: start_def split_beta Let_def)

lemma progress_to_status:
  "map_option status (tracking (progress_to t p m s) t') = map_option status (tracking s t')"
  by (simp add: progress_to_def split: option.splits)

text \<open>
  C7. Once a task id is persisted with a terminal status (completed or failed), it stays
  persisted with a terminal status through every sequence of operations of the core:
  tracker calls, hook registrations, runs of the Worker callback and whole jobs. In
  particular a persisted \<open>completed\<close> is never overwritten with \<open>running\<close>. The state
  manager is written only by \<open>complete\<close> and \<open>fail\<close>, so if every persisted snapshot, in
  memory and in the state file, is terminal, that remains so.
\<close>

theorem persisted_terminal_status_is_kept:
  assumes "sm_state s tid = Some e" and "terminal (status e)"
  shows "(\<exists>e'. sm_state (exec ops s) tid = Some e' \<and> terminal (status e')
              \<and> status e' \<noteq> Running)
       \<and> (persisted_ok s \<longrightarrow> persisted_ok (exec ops s))"
proof -
  have "keeps_terminal s (exec ops s)" by (rule keeps_terminal_exec)
  then obtain e' where e': "sm_state (exec ops s) tid = Some e'" "terminal (status e')"
    using assms unfolding keeps_terminal_def by blast
  then have "status e' \<noteq> Running" by (auto simp: terminal_def)
  then show ?thesis using e' persisted_ok_exec by blast
qed

text \<open>
  C7 at a task that has completed and whose id is then started again and reports
  progress: the tracker record is running, the persisted snapshot stays terminal.
\<close>

theorem persisted_terminal_status_is_kept_witness:
  "(\<exists>e. sm_state done_state ''t2'' = Some e \<and> status e = Completed)
   \<and> terminal Completed
   \<and> (\<exists>e'. sm_state (exec reopen done_state) ''t2'' = Some e' \<and> terminal (status e')
            \<and> status e' \<noteq> Running)
   \<and> map_option status (tracking (exec reopen done_state) ''t2'') = Some Running"
proof -
  have n: "fst (processJob half_up (steps_job 2) boot0) = None"
    by (rule processJob_plain) (simp add: steps_job_def plain_step_def)
  have "map_option status (sm_state done_state ''t2'') = Some Completed"
    using processJob_status [of half_up "steps_job 2" boot0] n
    by (simp add: done_state_def steps_job_def)
  then obtain e where e: "sm_state done_state ''t2'' = Some e" "status e = Completed"
    by auto
  have t: "terminal (status e)" using e by (simp add: terminal_def)
  have r: "map_option status (tracking (exec reopen done_state) ''t2'') = Some Running"
    by (simp add: reopen_def progress_to_status start_status)
  show ?thesis
    using e r persisted_terminal_status_is_kept [OF e(1) t, of reopen]
    by (auto simp: terminal_def)
qed

end
